theory Spec2Isabelle
  imports Complex_Main "HOL-Library.Word"
begin

section \<open>Time, configuration and the transport's data\<close>

text \<open>
  A \<^verbatim>\<open>time.Duration\<close> is an int64 count of nanoseconds: a 64-bit word, read as a signed
  number by \<open>sint\<close> and compared by \<open><s\<close>; its subtraction wraps around as Go's does.
  An instant is a clock reading in nanoseconds. The model has one clock and takes its
  readings as integers (it describes the runs whose wall clock and monotonic clock agree
  and whose instants fit 64 bits); one call of \<^verbatim>\<open>handleUpdate\<close> reads the clock once, and
  the reading is the argument \<open>now\<close>.
\<close>

type_synonym Time = int
type_synonym int64 = "64 word"
type_synonym Duration = int64

definition minDuration :: int where
  "minDuration = - (2 ^ 63)"

definition maxDuration :: int where
  "maxDuration = 2 ^ 63 - 1"

text \<open>\<^verbatim>\<open>config.Config\<close>: the three fields that \<^verbatim>\<open>New\<close> and \<^verbatim>\<open>handleUpdate\<close> read.\<close>

record Config =
  ApiKey :: string
  IsDebug :: bool
  CommandCooldown :: Duration

text \<open>
  The transport's types (\<^verbatim>\<open>tgbotapi.Update\<close>, \<^verbatim>\<open>Message\<close>, \<^verbatim>\<open>Chat\<close>). \<^verbatim>\<open>Update.Message\<close> and
  \<^verbatim>\<open>Message.Chat\<close> are pointers in Go, so they are options here and \<open>None\<close> is nil. The
  library's methods \<^verbatim>\<open>IsCommand()\<close> and \<^verbatim>\<open>Command()\<close> are observations of a message; the
  record carries their results as the fields \<open>IsCommand\<close> and \<open>Command\<close>.
\<close>

record Chat =
  ID :: int64

record Message =
  Chat :: "Chat option"
  Text :: string
  IsCommand :: bool
  Command :: string

record Update =
  UpdateID :: int
  Message :: "Message option"

section \<open>The cache of last-served times\<close>

text \<open>
  \<^verbatim>\<open>lastUsage\<close> is a \<^verbatim>\<open>cache.Cache\<close> of the go-cache library: a map from string keys to items,
  each item holding the stored object and the instant after which it counts as absent
  (0: never). The stored object is always the \<^verbatim>\<open>time.Time\<close> written at line 111, so the
  type assertion of line 102 cannot fail and \<open>Object\<close> is an instant.
\<close>

record Item =
  Object :: Time
  Expiration :: int

record Cache =
  defaultExpiration :: Duration
  items :: "string \<rightharpoonup> Item"

definition NoExpiration :: Duration where
  "NoExpiration = -1"

definition DefaultExpiration :: Duration where
  "DefaultExpiration = 0"

text \<open>\<^verbatim>\<open>cache.New(defaultExpiration, cleanupInterval)\<close>: a zero default means no expiration.\<close>

definition cache_New :: "Duration \<Rightarrow> Duration \<Rightarrow> Cache" where
  "cache_New de ci =
     \<lparr>defaultExpiration = (if de = 0 then NoExpiration else de), items = Map.empty\<rparr>"

text \<open>An item has expired once the clock is past a positive expiration instant.\<close>

definition Expired :: "Item \<Rightarrow> Time \<Rightarrow> bool" where
  "Expired it now = (Expiration it > 0 \<and> now > Expiration it)"

text \<open>\<^verbatim>\<open>c.Set(k, x, d)\<close> at clock reading \<open>now\<close>.\<close>

definition cache_Set :: "Cache \<Rightarrow> string \<Rightarrow> Time \<Rightarrow> Duration \<Rightarrow> Time \<Rightarrow> Cache" where
  "cache_Set c k x d now =
     (let d' = (if d = DefaultExpiration then defaultExpiration c else d);
          e = (if 0 <s d' then now + sint d' else 0)
      in c\<lparr>items := (items c)(k \<mapsto> \<lparr>Object = x, Expiration = e\<rparr>)\<rparr>)"

text \<open>\<^verbatim>\<open>c.Get(k)\<close> at clock reading \<open>now\<close>: an expired item is not found. Nothing is written.\<close>

definition cache_Get :: "Cache \<Rightarrow> string \<Rightarrow> Time \<Rightarrow> Time option" where
  "cache_Get c k now =
     (case items c k of
        None \<Rightarrow> None
      | Some it \<Rightarrow> if Expired it now then None else Some (Object it))"

text \<open>
  \<^verbatim>\<open>c.DeleteExpired()\<close>: the sweep that the cache's janitor runs every cleanup interval
  (five minutes, line 63), in a goroutine of its own.
\<close>

definition cache_DeleteExpired :: "Cache \<Rightarrow> Time \<Rightarrow> Cache" where
  "cache_DeleteExpired c now =
     c\<lparr>items := (\<lambda>k. case items c k of
                        None \<Rightarrow> None
                      | Some it \<Rightarrow> if Expired it now then None else Some it)\<rparr>"

section \<open>Formatting\<close>

text \<open>\<^verbatim>\<open>fmt.Sprint\<close> of an int64: the decimal digits of its signed value.\<close>

fun digits :: "nat \<Rightarrow> string" where
  "digits n =
     (if n < 10 then [char_of (48 + n)]
      else digits (n div 10) @ [char_of (48 + n mod 10)])"

declare digits.simps [simp del]

definition Sprint :: "int64 \<Rightarrow> string" where
  "Sprint i =
     (if sint i < 0 then CHR ''-'' # digits (nat (- sint i)) else digits (nat (sint i)))"

text \<open>
  \<^verbatim>\<open>fmt.Sprintf("%.1f", waitTime.Seconds())\<close>. \<^verbatim>\<open>Seconds\<close> computes, in float64,
  \<^verbatim>\<open>float64(d / Second) + float64(d % Second) / 1e9\<close>: the quotient is rounded to the
  nearest float64, and so is the sum. A float64 that is not negative is written as a
  fraction, numerator and denominator; \<open>float64_of a b\<close> is the float64 nearest to
  \<open>a / b\<close>, ties to the even significand of 53 bits (the numbers here are far from the
  subnormal and the infinite). \<^verbatim>\<open>%.1f\<close> writes the decimal with one digit after the point
  that is nearest to the float64, ties to the even digit, after the sign.
\<close>

definition round_half_even :: "int \<Rightarrow> int \<Rightarrow> int" where
  "round_half_even a b =
     (let q = a div b; r = a mod b
      in if 2 * r < b then q else if b < 2 * r then q + 1 else if even q then q else q + 1)"

text \<open>The number of binary digits of \<open>n\<close>.\<close>

function bits :: "int \<Rightarrow> int" where
  "bits n = (if n \<le> 0 then 0 else 1 + bits (n div 2))"
  by pat_completeness auto
termination
  by (relation "measure nat") auto

declare bits.simps [simp del]

text \<open>The exponent of \<open>a / b\<close>: the \<open>e\<close> with \<open>2 ^ e \<le> a / b < 2 ^ (e + 1)\<close>.\<close>

definition exponent :: "int \<Rightarrow> int \<Rightarrow> int" where
  "exponent a b =
     (let l = bits a - bits b
      in if (if 0 \<le> l then b * 2 ^ nat l \<le> a else b \<le> a * 2 ^ nat (- l)) then l else l - 1)"

definition float64_of :: "int \<Rightarrow> int \<Rightarrow> int \<times> int" where
  "float64_of a b =
     (if a = 0 then (0, 1)
      else let k = exponent a b - 52
           in if 0 \<le> k then (round_half_even a (b * 2 ^ nat k) * 2 ^ nat k, 1)
              else (round_half_even (a * 2 ^ nat (- k)) b, 2 ^ nat (- k)))"

text \<open>\<^verbatim>\<open>Seconds\<close> of a duration of \<open>d\<close> nanoseconds, \<open>d\<close> not negative.\<close>

definition Seconds :: "int \<Rightarrow> int \<times> int" where
  "Seconds d =
     (let sec = d div 1000000000; nsec = d mod 1000000000;
          (qa, qb) = float64_of nsec 1000000000
      in float64_of (sec * qb + qa) qb)"

text \<open>The tenths that \<^verbatim>\<open>%.1f\<close> shows for it.\<close>

definition tenths :: "int \<Rightarrow> int" where
  "tenths d = (let (sa, sb) = Seconds d in round_half_even (10 * sa) sb)"

text \<open>
  The whole rendering. A negative duration has the seconds of its magnitude, negated
  (Go's division truncates and the rounding is symmetric), and keeps its sign in the text.
\<close>

definition Seconds_1f :: "Duration \<Rightarrow> string" where
  "Seconds_1f w =
     (let t = tenths \<bar>sint w\<bar>
      in (if sint w < 0 then ''-'' else []) @
         digits (nat (t div 10)) @ ''.'' @ digits (nat (t mod 10)))"

section \<open>The general handlers\<close>

text \<open>
  \<^verbatim>\<open>tgbotapi.NewMessage(chatID, text)\<close> and the transport's \<^verbatim>\<open>Send\<close>. The transport is not
  part of the repository: its verdict on a message (\<open>None\<close>: sent, \<open>Some e\<close>: the error
  \<open>e\<close>) is the parameter \<open>tr\<close>. The world records every call of \<^verbatim>\<open>Send\<close> and every line
  given to \<^verbatim>\<open>log.Printf\<close>, in order.
\<close>

record MessageConfig =
  ChatID :: int64
  MsgText :: string

definition NewMessage :: "int64 \<Rightarrow> string \<Rightarrow> MessageConfig" where
  "NewMessage chatID text = \<lparr>ChatID = chatID, MsgText = text\<rparr>"

record World =
  sends :: "MessageConfig list"
  logs :: "string list"

type_synonym Transport = "MessageConfig \<Rightarrow> string option"

definition bot_Send :: "Transport \<Rightarrow> MessageConfig \<Rightarrow> World \<Rightarrow> string option \<times> World" where
  "bot_Send tr c w = (tr c, w\<lparr>sends := sends w @ [c]\<rparr>)"

definition log_Printf :: "string \<Rightarrow> World \<Rightarrow> World" where
  "log_Printf line w = w\<lparr>logs := logs w @ [line]\<rparr>"

definition MessageResponse :: "Transport \<Rightarrow> int64 \<Rightarrow> string \<Rightarrow> World \<Rightarrow> World" where
  "MessageResponse tr chatID message w =
     (case bot_Send tr (NewMessage chatID message) w of
        (None, w') \<Rightarrow> w'
      | (Some err, w') \<Rightarrow> log_Printf (''Error sending message: '' @ err) w')"

definition StartResponse :: "Transport \<Rightarrow> int64 \<Rightarrow> World \<Rightarrow> World" where
  "StartResponse tr chatID w =
     (let msgText = ''Welcome to peepobot. Now you can use any available command.'' in
      case bot_Send tr (NewMessage chatID msgText) w of
        (None, w') \<Rightarrow> w'
      | (Some err, w') \<Rightarrow> log_Printf (''Error sending message: '' @ err) w')"

definition help_text :: string where
  "help_text =
     ''Command list help:'' @ [CHR 0x0A] @
     ''/peepo - Get random picture;'' @ [CHR 0x0A] @
     ''/sub - Subscribe to receive pictures periodically;'' @ [CHR 0x0A] @
     ''/sub_info - Get info about current subscription;'' @ [CHR 0x0A] @
     ''/unsub - Drop current subscription;'' @ [CHR 0x0A] @
     ''/help - Get this list.''"

definition HelpResponse :: "Transport \<Rightarrow> int64 \<Rightarrow> World \<Rightarrow> World" where
  "HelpResponse tr chatID w =
     (let msgText = help_text in
      case bot_Send tr (NewMessage chatID msgText) w of
        (None, w') \<Rightarrow> w'
      | (Some err, w') \<Rightarrow> log_Printf (''Error sending message: '' @ err) w')"

section \<open>The application\<close>

record BotAPI =
  Token :: string
  Debug :: bool
  receiving :: bool

record DB =
  closed :: bool

record App =
  cfg :: Config
  db :: DB
  bot :: BotAPI
  lastUsage :: Cache

text \<open>
  A \<^verbatim>\<open>go\<close> statement starts a handler and does not wait for it: \<^verbatim>\<open>handleUpdate\<close> returns
  the calls it has started, in order. The image handlers are not in the sources; a call
  of one is recorded with the message it is given.
\<close>

datatype Call =
    General_MessageResponse int64 string
  | General_StartResponse int64
  | General_HelpResponse int64
  | Image_GetImage Message
  | Image_CreateSubscription Message
  | Image_DeleteSubscription Message
  | Image_GetSubscription Message

datatype panic = NilPointerDereference

text \<open>\<^verbatim>\<open>update.Message.Chat.ID\<close>: dereferences both pointers.\<close>

definition Message_Chat_ID :: "Update \<Rightarrow> panic + int64" where
  "Message_Chat_ID update =
     (case Message update of
        None \<Rightarrow> Inl NilPointerDereference
      | Some m \<Rightarrow>
          (case Chat m of
             None \<Rightarrow> Inl NilPointerDereference
           | Some c \<Rightarrow> Inr (ID c)))"

text \<open>
  \<^verbatim>\<open>time.Since(t)\<close> at clock reading \<open>now\<close>: the difference of the two readings, held at
  the least or the greatest duration when it does not fit.
\<close>

definition time_Since :: "Time \<Rightarrow> Time \<Rightarrow> Duration" where
  "time_Since now t = word_of_int (max minDuration (min maxDuration (now - t)))"

text \<open>
  Lines 101 to 109: the wait that is left when the chat is on cooldown, \<open>None\<close> when the
  update passes. The subtraction of line 102 is the word's: it wraps around.
\<close>

definition onCooldown :: "App \<Rightarrow> Time \<Rightarrow> int64 \<Rightarrow> Duration option" where
  "onCooldown a now chatID =
     (case cache_Get (lastUsage a) (Sprint chatID) now of
        None \<Rightarrow> None
      | Some lastTime \<Rightarrow>
          (let waitTime = CommandCooldown (cfg a) - time_Since now lastTime
           in if 0 <s waitTime then Some waitTime else None))"

text \<open>Lines 124 to 143: the switch on the command.\<close>

definition dispatch :: "Message \<Rightarrow> int64 \<Rightarrow> Call" where
  "dispatch m chatID =
     (let c = Command m in
      if c = ''start'' then General_StartResponse chatID
      else if c = ''peepo'' then Image_GetImage m
      else if c = ''sub'' then Image_CreateSubscription m
      else if c = ''unsub'' then Image_DeleteSubscription m
      else if c = ''sub_info'' then Image_GetSubscription m
      else if c = ''help'' then General_HelpResponse chatID
      else General_MessageResponse chatID ''Unknown command'')"

text \<open>
  \<^verbatim>\<open>handleUpdate\<close>. The argument \<open>f1\<close> is the rendering of the wait in the cooldown notice;
  in the program it is \<open>Seconds_1f\<close> above, \<^verbatim>\<open>%.1f\<close> of \<^verbatim>\<open>waitTime.Seconds()\<close>. The result is
  the panic, or the application after the call with the handler calls it started.
\<close>

definition handleUpdate ::
  "(Duration \<Rightarrow> string) \<Rightarrow> App \<Rightarrow> Time \<Rightarrow> Update \<Rightarrow> panic + App \<times> Call list" where
  "handleUpdate f1 a now update =
     (case Message_Chat_ID update of
        Inl p \<Rightarrow> Inl p
      | Inr chatID \<Rightarrow>
          (case onCooldown a now chatID of
             Some waitTime \<Rightarrow>
               (let msgText = ''Command on cooldown for '' @ f1 waitTime @ '' sec''
                in Inr (a, [General_MessageResponse chatID msgText]))
           | None \<Rightarrow>
               (let a' = a\<lparr>lastUsage :=
                            cache_Set (lastUsage a) (Sprint chatID) now DefaultExpiration now\<rparr>
                in case Message update of
                     None \<Rightarrow> Inr (a', [])
                   | Some m \<Rightarrow>
                       if \<not> IsCommand m then
                         (let msgText = ''I can only handle listed commands in this chat!''
                          in Inr (a', [General_MessageResponse chatID msgText]))
                       else Inr (a', [dispatch m chatID]))))"

section \<open>Construction\<close>

text \<open>
  \<^verbatim>\<open>New\<close>. The two constructors that can fail, \<^verbatim>\<open>tgbotapi.NewBotAPI\<close> and \<^verbatim>\<open>database.New\<close>,
  are parameters: each returns its error (\<open>Inl\<close>) or its handle. \<^verbatim>\<open>log.Fatalf\<close> prints the
  line and ends the process, so \<^verbatim>\<open>New\<close> does not return: the result \<open>Inl (Fatal line)\<close>.
  The repositories, services and handlers (lines 41 to 61) are built from \<open>cfg\<close>, \<open>db\<close>
  and \<open>bot\<close> by constructors that return no error; the model keeps what they are built
  from.
\<close>

datatype fatal = Fatal string

definition Second :: Duration where
  "Second = 1000000000"

definition Minute :: Duration where
  "Minute = 60 * Second"

definition New ::
  "(string \<Rightarrow> string + BotAPI) \<Rightarrow> (Config \<Rightarrow> string + DB) \<Rightarrow> Config \<Rightarrow> fatal + App" where
  "New NewBotAPI database_New c =
     (case NewBotAPI (ApiKey c) of
        Inl err \<Rightarrow> Inl (Fatal (''Error creating bot: '' @ err))
      | Inr b \<Rightarrow>
          (let b' = b\<lparr>Debug := IsDebug c\<rparr> in
           case database_New c of
             Inl err \<Rightarrow> Inl (Fatal (''Error connecting to database: '' @ err))
           | Inr d \<Rightarrow>
               Inr \<lparr>cfg = c, db = d, bot = b',
                    lastUsage = cache_New (CommandCooldown c) (5 * Minute)\<rparr>))"

section \<open>The dispatch loop\<close>

text \<open>
  What the process does next is an event: the select of line 84 takes an update from the
  channel (at some clock reading), or takes the signal; between two iterations the
  cache's janitor may sweep. \<^verbatim>\<open>Run\<close> is the loop over a finite list of events. It ends
  \<open>Returned\<close> at line 95, \<open>Crashed\<close> when \<^verbatim>\<open>handleUpdate\<close> panics (the call of line 86 is
  not a goroutine and nothing recovers), and \<open>Blocked\<close> in the select when the list is
  used up. Beside the application it returns what it did, in order.
\<close>

datatype Event = Received Time Update | Swept Time | Signal

datatype Action = Started Call | Printed string | StopReceivingUpdates | DB_Close

datatype ending = Returned | Crashed panic | Blocked

fun loop :: "(Duration \<Rightarrow> string) \<Rightarrow> App \<Rightarrow> Event list \<Rightarrow> ending \<times> App \<times> Action list" where
  "loop f1 a [] = (Blocked, a, [])"
| "loop f1 a (Received now update # evs) =
     (case handleUpdate f1 a now update of
        Inl p \<Rightarrow> (Crashed p, a, [])
      | Inr (a', cs) \<Rightarrow>
          (case loop f1 a' evs of (e, a'', acts) \<Rightarrow> (e, a'', map Started cs @ acts)))"
| "loop f1 a (Swept now # evs) =
     loop f1 (a\<lparr>lastUsage := cache_DeleteExpired (lastUsage a) now\<rparr>) evs"
| "loop f1 a (Signal # evs) =
     (Returned,
      a\<lparr>bot := (bot a)\<lparr>receiving := False\<rparr>, db := (db a)\<lparr>closed := True\<rparr>\<rparr>,
      [Printed ''Stopping bot...'', StopReceivingUpdates, DB_Close,
       Printed ''Bot gracefully stopped!''])"

definition Run :: "(Duration \<Rightarrow> string) \<Rightarrow> App \<Rightarrow> Event list \<Rightarrow> ending \<times> App \<times> Action list" where
  "Run f1 a evs = loop f1 (a\<lparr>bot := (bot a)\<lparr>receiving := True\<rparr>\<rparr>) evs"

text \<open>
  The clock readings of a list of events, in order. The clock does not run backwards:
  the readings of a run are sorted.
\<close>

fun event_times :: "Event list \<Rightarrow> Time list" where
  "event_times [] = []"
| "event_times (Received now update # evs) = now # event_times evs"
| "event_times (Swept now # evs) = now # event_times evs"
| "event_times (Signal # evs) = event_times evs"

text \<open>The last-served time the cache holds for a chat, swept or not.\<close>

definition lastServed :: "App \<Rightarrow> int64 \<Rightarrow> Time option" where
  "lastServed a chatID = map_option Object (items (lastUsage a) (Sprint chatID))"

section \<open>The gate as the spec words it\<close>

text \<open>
  The spec's cooldown gate, to compare the code with: a map from chat identifiers to
  last-served instants, in which nothing expires. \<^verbatim>\<open>Admit(chatID)\<close> at \<open>now\<close> looks the
  last-served instant up; if there is none or at least the cooldown has passed since, it
  records \<open>now\<close> and admits; otherwise it denies with the wait that is left,
  \<open>(T + cooldown) - now\<close>, and records nothing. \<open>spec_after\<close> is the gate after a list of
  events: every update asks for the chat it comes from, and a sweep means nothing to it.
\<close>

type_synonym spec_gate = "int64 \<rightharpoonup> Time"

datatype verdict = Admitted | Denied int

definition spec_Admit :: "int \<Rightarrow> spec_gate \<Rightarrow> int64 \<Rightarrow> Time \<Rightarrow> verdict \<times> spec_gate" where
  "spec_Admit cooldown g chatID now =
     (case g chatID of
        None \<Rightarrow> (Admitted, g(chatID \<mapsto> now))
      | Some T \<Rightarrow>
          if cooldown \<le> now - T then (Admitted, g(chatID \<mapsto> now))
          else (Denied ((T + cooldown) - now), g))"

fun spec_after :: "int \<Rightarrow> spec_gate \<Rightarrow> Event list \<Rightarrow> spec_gate" where
  "spec_after cooldown g [] = g"
| "spec_after cooldown g (Received now update # evs) =
     (case Message_Chat_ID update of
        Inl p \<Rightarrow> g
      | Inr chatID \<Rightarrow> spec_after cooldown (snd (spec_Admit cooldown g chatID now)) evs)"
| "spec_after cooldown g (Swept now # evs) = spec_after cooldown g evs"
| "spec_after cooldown g (Signal # evs) = g"

text \<open>The verdict of the code's check, lines 101 to 109, in the same words.\<close>

definition code_verdict :: "App \<Rightarrow> Time \<Rightarrow> int64 \<Rightarrow> verdict" where
  "code_verdict a now chatID =
     (case onCooldown a now chatID of
        None \<Rightarrow> Admitted
      | Some waitTime \<Rightarrow> Denied (sint waitTime))"

section \<open>The shape of the cache\<close>

text \<open>
  What \<^verbatim>\<open>New\<close> and line 111 make of the cache: its default expiration is the cooldown (or
  none, for a cooldown of zero), and every item expires one cooldown after the instant it
  holds (or never, when the cooldown is not positive). \<open>window_item a T\<close> is the item that
  line 111 writes at \<open>T\<close>.
\<close>

definition cache_ok :: "App \<Rightarrow> bool" where
  "cache_ok a \<longleftrightarrow>
     defaultExpiration (lastUsage a) =
       (if CommandCooldown (cfg a) = 0 then NoExpiration else CommandCooldown (cfg a)) \<and>
     (\<forall>k it. items (lastUsage a) k = Some it \<longrightarrow>
        Expiration it =
          (if 0 <s CommandCooldown (cfg a) then Object it + sint (CommandCooldown (cfg a))
           else 0))"

definition window_item :: "App \<Rightarrow> Time \<Rightarrow> Item" where
  "window_item a T =
     \<lparr>Object = T,
      Expiration =
        (if 0 <s CommandCooldown (cfg a) then T + sint (CommandCooldown (cfg a)) else 0)\<rparr>"

text \<open>
  The cache agrees with the spec's gate at clock reading \<open>clock\<close>: a chat the gate has
  never served has no item, and a chat served at \<open>T\<close> has the item written at \<open>T\<close>, or
  none any more, its cooldown having passed.
\<close>

definition agrees :: "App \<Rightarrow> spec_gate \<Rightarrow> Time \<Rightarrow> bool" where
  "agrees a g clock \<longleftrightarrow>
     (\<forall>C. case g C of
            None \<Rightarrow> items (lastUsage a) (Sprint C) = None
          | Some T \<Rightarrow>
              T \<le> clock \<and>
              (items (lastUsage a) (Sprint C) = Some (window_item a T) \<or>
               items (lastUsage a) (Sprint C) = None \<and>
               0 < sint (CommandCooldown (cfg a)) \<and> T + sint (CommandCooldown (cfg a)) < clock))"

section \<open>Sample inputs\<close>

text \<open>
  A configuration with a cooldown of five seconds, constructors that succeed, and the
  application \<^verbatim>\<open>New\<close> builds from them.
\<close>

definition sample_cfg :: Config where
  "sample_cfg = \<lparr>ApiKey = ''key'', IsDebug = False, CommandCooldown = 5 * Second\<rparr>"

definition sample_NewBotAPI :: "string \<Rightarrow> string + BotAPI" where
  "sample_NewBotAPI token = Inr \<lparr>Token = token, Debug = False, receiving = False\<rparr>"

definition sample_database_New :: "Config \<Rightarrow> string + DB" where
  "sample_database_New c = Inr \<lparr>closed = False\<rparr>"

definition sample_app :: App where
  "sample_app =
     \<lparr>cfg = sample_cfg, db = \<lparr>closed = False\<rparr>,
      bot = \<lparr>Token = ''key'', Debug = False, receiving = False\<rparr>,
      lastUsage = \<lparr>defaultExpiration = 5 * Second, items = Map.empty\<rparr>\<rparr>"

definition sample_message :: "string \<Rightarrow> bool \<Rightarrow> string \<Rightarrow> Message" where
  "sample_message text is_command command =
     \<lparr>Chat = Some \<lparr>ID = 7\<rparr>, Text = text, IsCommand = is_command, Command = command\<rparr>"

definition sample_update :: "string \<Rightarrow> bool \<Rightarrow> string \<Rightarrow> Update" where
  "sample_update text is_command command =
     \<lparr>UpdateID = 1, Message = Some (sample_message text is_command command)\<rparr>"

text \<open>An update of another chat.\<close>

definition sample_update_of :: "int64 \<Rightarrow> Update" where
  "sample_update_of chatID =
     \<lparr>UpdateID = 2,
      Message = Some \<lparr>Chat = Some \<lparr>ID = chatID\<rparr>, Text = ''/help'', IsCommand = True,
                       Command = ''help''\<rparr>\<rparr>"

text \<open>The sample application once chat 7 has been served at \<open>t\<close>.\<close>

definition sample_served :: "Time \<Rightarrow> App" where
  "sample_served t =
     sample_app\<lparr>lastUsage :=
       \<lparr>defaultExpiration = 5 * Second,
        items = [''7'' \<mapsto> \<lparr>Object = t, Expiration = t + 5000000000\<rparr>]\<rparr>\<rparr>"

text \<open>The same applications once \<^verbatim>\<open>Run\<close> has started to receive updates.\<close>

definition sample_running :: App where
  "sample_running = sample_app\<lparr>bot := \<lparr>Token = ''key'', Debug = False, receiving = True\<rparr>\<rparr>"

definition sample_running_served :: "Time \<Rightarrow> App" where
  "sample_running_served t =
     sample_running\<lparr>lastUsage :=
       \<lparr>defaultExpiration = 5 * Second,
        items = [''7'' \<mapsto> \<lparr>Object = t, Expiration = t + 5000000000\<rparr>]\<rparr>\<rparr>"

section \<open>Basic facts\<close>

lemma digits_nonempty: "digits n \<noteq> []"
  by (subst digits.simps) simp

lemma digit_char_inj: "a < 10 \<Longrightarrow> b < 10 \<Longrightarrow> char_of (48 + a :: nat) = char_of (48 + b) \<Longrightarrow> a = b"
proof -
  assume a: "a < 10" and b: "b < 10" and e: "char_of (48 + a :: nat) = char_of (48 + b)"
  from e have "of_char (char_of (48 + a)) = (of_char (char_of (48 + b)) :: nat)" by simp
  with a b show ?thesis by simp
qed

lemma digit_char_not_minus: "a < 10 \<Longrightarrow> char_of (48 + a :: nat) \<noteq> CHR ''-''"
proof
  assume a: "a < 10" and e: "char_of (48 + a :: nat) = CHR ''-''"
  from e have "of_char (char_of (48 + a)) = (of_char (CHR ''-'') :: nat)" by simp
  with a show False by simp
qed

lemma digits_small: "n < 10 \<Longrightarrow> digits n = [char_of (48 + n)]"
  by (subst digits.simps) simp

lemma digits_large: "\<not> n < 10 \<Longrightarrow> digits n = digits (n div 10) @ [char_of (48 + n mod 10)]"
  by (subst digits.simps) simp

lemma digits_length_large: "\<not> n < 10 \<Longrightarrow> 2 \<le> length (digits n)"
proof -
  assume "\<not> n < 10"
  moreover have "1 \<le> length (digits (n div 10))"
    using digits_nonempty [of "n div 10"] by (cases "digits (n div 10)") simp_all
  ultimately show ?thesis by (simp add: digits_large)
qed

lemma digits_inj: "digits n = digits m \<Longrightarrow> n = m"
proof (induction n arbitrary: m rule: digits.induct)
  case (1 n)
  show ?case
  proof (cases "n < 10")
    case True
    have m: "m < 10"
    proof (rule ccontr)
      assume "\<not> m < 10"
      then have "2 \<le> length (digits m)" by (rule digits_length_large)
      moreover have "length (digits m) = length (digits n)" using "1.prems" by simp
      ultimately show False using True by (simp add: digits_small)
    qed
    with "1.prems" True show ?thesis by (simp add: digits_small digit_char_inj)
  next
    case False
    have m: "\<not> m < 10"
    proof
      assume "m < 10"
      moreover have "length (digits m) = length (digits n)" using "1.prems" by simp
      ultimately show False using digits_length_large [OF False] by (simp add: digits_small)
    qed
    from "1.prems" False m
    have eq: "digits (n div 10) = digits (m div 10)"
      and ch: "char_of (48 + n mod 10) = char_of (48 + m mod 10)"
      by (simp_all add: digits_large)
    from "1.IH" [OF False eq] have d: "n div 10 = m div 10" .
    from ch have r: "n mod 10 = m mod 10" by (intro digit_char_inj) simp_all
    from d r show ?thesis by (metis div_mult_mod_eq)
  qed
qed

lemma digits_no_minus: "CHR ''-'' \<notin> set (digits n)"
proof (induction n rule: digits.induct)
  case (1 n)
  show ?case
  proof (cases "n < 10")
    case True
    then show ?thesis using digit_char_not_minus [of n] by (auto simp add: digits_small)
  next
    case False
    with "1.IH" digit_char_not_minus [of "n mod 10"] show ?thesis
      by (auto simp add: digits_large)
  qed
qed

lemma Sprint_inj: "Sprint i = Sprint j \<Longrightarrow> i = j"
proof -
  assume e: "Sprint i = Sprint j"
  have "sint i = sint j"
  proof (cases "sint i < 0")
    case True
    note i = this
    show ?thesis
    proof (cases "sint j < 0")
      case True
      with i e have "nat (- sint i) = nat (- sint j)" by (simp add: Sprint_def digits_inj)
      with i True show ?thesis by simp
    next
      case False
      with i e have "CHR ''-'' # digits (nat (- sint i)) = digits (nat (sint j))"
        by (simp add: Sprint_def)
      then have "CHR ''-'' \<in> set (digits (nat (sint j)))"
        by (metis list.set_intros(1))
      then show ?thesis by (simp add: digits_no_minus)
    qed
  next
    case False
    note i = this
    show ?thesis
    proof (cases "sint j < 0")
      case True
      with i e have "digits (nat (sint i)) = CHR ''-'' # digits (nat (- sint j))"
        by (simp add: Sprint_def)
      then have "CHR ''-'' \<in> set (digits (nat (sint i)))"
        by (metis list.set_intros(1))
      then show ?thesis by (simp add: digits_no_minus)
    next
      case False
      with i e have "nat (sint i) = nat (sint j)" by (simp add: Sprint_def digits_inj)
      with i False show ?thesis by simp
    qed
  qed
  then show ?thesis by (rule signed_word_eqI)
qed

lemma Sprint_eq_iff: "Sprint i = Sprint j \<longleftrightarrow> i = j"
  using Sprint_inj by blast

lemma Message_Chat_ID_Inr:
  "Message_Chat_ID u = Inr C \<longleftrightarrow> (\<exists>m c. Message u = Some m \<and> Chat m = Some c \<and> ID c = C)"
  by (auto simp add: Message_Chat_ID_def split: option.splits)

lemma handleUpdate_denied:
  assumes "Message_Chat_ID u = Inr C" and "onCooldown a now C = Some w"
  shows "handleUpdate f1 a now u =
           Inr (a, [General_MessageResponse C (''Command on cooldown for '' @ f1 w @ '' sec'')])"
  using assms by (simp add: handleUpdate_def)

lemma handleUpdate_admitted:
  assumes "Message u = Some m" and "Chat m = Some c" and "onCooldown a now (ID c) = None"
  shows "handleUpdate f1 a now u =
           Inr (a\<lparr>lastUsage := cache_Set (lastUsage a) (Sprint (ID c)) now DefaultExpiration now\<rparr>,
                [if \<not> IsCommand m
                 then General_MessageResponse (ID c) ''I can only handle listed commands in this chat!''
                 else dispatch m (ID c)])"
  using assms by (simp add: handleUpdate_def Message_Chat_ID_def)

lemma handleUpdate_cfg:
  "handleUpdate f1 a now u = Inr (a', cs) \<Longrightarrow>
     cfg a' = cfg a \<and> db a' = db a \<and> bot a' = bot a"
  by (auto simp add: handleUpdate_def Let_def split: sum.splits option.splits if_splits)

lemma cache_Set_other: "k \<noteq> k' \<Longrightarrow> items (cache_Set c k' x d now) k = items c k"
  by (simp add: cache_Set_def Let_def)

lemma lastServed_Set:
  "lastServed (a\<lparr>lastUsage := cache_Set (lastUsage a) (Sprint C) x d now\<rparr>) C = Some x"
  by (simp add: lastServed_def cache_Set_def Let_def)

section \<open>Durations\<close>

lemma sint_time_Since:
  "sint (time_Since now t) = max minDuration (min maxDuration (now - t))"
proof -
  let ?d = "max minDuration (min maxDuration (now - t))"
  have "- (2 ^ 63) \<le> ?d" and "?d < 2 ^ 63"
    by (simp_all add: minDuration_def maxDuration_def)
  then have "signed_take_bit 63 ?d = ?d"
    by (simp add: signed_take_bit_int_eq_self)
  then show ?thesis
    by (simp add: time_Since_def sint_sbintrunc')
qed

lemma sint_bounds: "- (2 ^ 63) \<le> sint (w :: Duration)" "sint (w :: Duration) < 2 ^ 63"
  using sint_ge [of w] sint_lt [of w] by simp_all

text \<open>Where the clock has not run backwards and the cooldown is not negative, line 102 does not wrap.\<close>

lemma sint_waitTime:
  assumes "0 \<le> sint (c :: Duration)" and "t \<le> now"
  shows "sint (c - time_Since now t) = sint c - min maxDuration (now - t)"
proof -
  define m where "m = min maxDuration (now - t)"
  have m0: "0 \<le> m" and m1: "m < 2 ^ 63"
    using assms(2) by (simp_all add: m_def maxDuration_def)
  have s: "sint (time_Since now t) = m"
    using assms(2) by (simp add: sint_time_Since minDuration_def maxDuration_def m_def)
  from assms(1) sint_bounds [of c] m0 m1
  have "- (2 ^ 63) \<le> sint c - m" and "sint c - m < 2 ^ 63"
    by linarith+
  then have "signed_take_bit 63 (sint c - m) = sint c - m"
    by (simp add: signed_take_bit_int_eq_self)
  then show ?thesis
    by (simp add: sint_word_ariths s m_def [symmetric])
qed

lemma waitTime_positive:
  assumes "0 \<le> sint (c :: Duration)" and "t \<le> now"
  shows "0 <s c - time_Since now t \<longleftrightarrow> now - t < sint c"
  using sint_waitTime [OF assms] sint_bounds [of c]
  by (auto simp add: word_sless_alt maxDuration_def)

lemma waitTime_value:
  assumes "t \<le> now" and "now - t < sint (c :: Duration)"
  shows "c - time_Since now t = word_of_int (t + sint c - now)"
    and "sint (c - time_Since now t) = t + sint c - now"
proof -
  from assms have c: "0 \<le> sint c" by simp
  from assms sint_bounds [of c] have m: "min maxDuration (now - t) = now - t"
    by (simp add: maxDuration_def)
  from sint_waitTime [OF c assms(1)] m
  show s: "sint (c - time_Since now t) = t + sint c - now" by simp
  have "c - time_Since now t = word_of_int (sint (c - time_Since now t))" by simp
  with s show "c - time_Since now t = word_of_int (t + sint c - now)" by simp
qed

section \<open>The check of lines 101 to 109\<close>

lemma onCooldown_Some:
  "onCooldown a now C = Some w \<longleftrightarrow>
     (\<exists>T. cache_Get (lastUsage a) (Sprint C) now = Some T \<and>
          w = CommandCooldown (cfg a) - time_Since now T \<and> 0 <s w)"
  by (auto simp add: onCooldown_def Let_def split: option.splits)

lemma onCooldown_None:
  "onCooldown a now C = None \<longleftrightarrow>
     (case cache_Get (lastUsage a) (Sprint C) now of
        None \<Rightarrow> True
      | Some T \<Rightarrow> \<not> 0 <s CommandCooldown (cfg a) - time_Since now T)"
  by (auto simp add: onCooldown_def Let_def split: option.splits)

section \<open>The cache that the application builds and keeps\<close>

lemma New_cache_ok: "New NewBotAPI database_New c = Inr a \<Longrightarrow> cache_ok a \<and> cfg a = c"
  by (auto simp add: New_def cache_New_def cache_ok_def Let_def word_sless_alt
      split: sum.splits)

lemma handleUpdate_Set_item:
  assumes "cache_ok a"
  shows "items (cache_Set (lastUsage a) k now DefaultExpiration now) k = Some (window_item a now)"
  using assms
  by (simp add: cache_ok_def cache_Set_def window_item_def Let_def NoExpiration_def
      DefaultExpiration_def word_sless_alt)

lemma handleUpdate_cache_ok:
  assumes "cache_ok a" and "handleUpdate f1 a now u = Inr (a', cs)"
  shows "cache_ok a'"
proof -
  have set: "cache_ok (a\<lparr>lastUsage := cache_Set (lastUsage a) k now DefaultExpiration now\<rparr>)" for k
    using assms(1)
    by (simp add: cache_ok_def cache_Set_def Let_def NoExpiration_def DefaultExpiration_def
        word_sless_alt)
  from assms(2) have "a' = a \<or>
      (\<exists>k. a' = a\<lparr>lastUsage := cache_Set (lastUsage a) k now DefaultExpiration now\<rparr>)"
    by (auto simp add: handleUpdate_def Let_def split: sum.splits option.splits if_splits)
  with assms(1) set show ?thesis by auto
qed

lemma sweep_cache_ok:
  "cache_ok a \<Longrightarrow> cache_ok (a\<lparr>lastUsage := cache_DeleteExpired (lastUsage a) now\<rparr>)"
  by (auto simp add: cache_ok_def cache_DeleteExpired_def split: option.splits if_splits)

lemma loop_cache_ok:
  "cache_ok a \<Longrightarrow> loop f1 a evs = (e, a', acts) \<Longrightarrow> cache_ok a' \<and> cfg a' = cfg a"
proof (induction evs arbitrary: a acts)
  case Nil
  then show ?case by simp
next
  case (Cons ev evs)
  show ?case
  proof (cases ev)
    case (Received now u)
    show ?thesis
    proof (cases "handleUpdate f1 a now u")
      case (Inl p)
      with Cons.prems Received show ?thesis by simp
    next
      case (Inr r)
      obtain a1 cs where r: "r = (a1, cs)" by (cases r)
      with Inr have h: "handleUpdate f1 a now u = Inr (a1, cs)" by simp
      obtain acts1 where l: "loop f1 a1 evs = (e, a', acts1)"
        using Cons.prems(2) Received h by (auto split: prod.splits)
      have "cache_ok a1" using Cons.prems(1) h by (rule handleUpdate_cache_ok)
      from Cons.IH [OF this l] handleUpdate_cfg [OF h] show ?thesis by simp
    qed
  next
    case (Swept now)
    with Cons.prems have l: "loop f1 (a\<lparr>lastUsage := cache_DeleteExpired (lastUsage a) now\<rparr>) evs = (e, a', acts)"
      by simp
    from Cons.IH [OF sweep_cache_ok [OF Cons.prems(1)] l] show ?thesis by simp
  next
    case Signal
    with Cons.prems show ?thesis by (auto simp add: cache_ok_def)
  qed
qed

lemma Run_cache_ok:
  assumes "New NewBotAPI database_New c = Inr a0" and "Run f1 a0 evs = (e, a, acts)"
  shows "cache_ok a \<and> cfg a = c"
proof -
  from New_cache_ok [OF assms(1)] have "cache_ok a0" and c: "cfg a0 = c" by simp_all
  then have "cache_ok (a0\<lparr>bot := (bot a0)\<lparr>receiving := True\<rparr>\<rparr>)"
    by (simp add: cache_ok_def)
  from loop_cache_ok [OF this assms(2) [unfolded Run_def]] c show ?thesis by simp
qed

section \<open>The cooldown window\<close>

lemma cache_Get_window:
  assumes "items (lastUsage a) k = Some (window_item a T)"
    and "now < T + sint (CommandCooldown (cfg a))"
  shows "cache_Get (lastUsage a) k now = Some T"
  using assms by (simp add: cache_Get_def Expired_def window_item_def)

lemma onCooldown_window:
  assumes "items (lastUsage a) (Sprint C) = Some (window_item a T)"
    and "T \<le> now" and "now < T + sint (CommandCooldown (cfg a))"
  shows "onCooldown a now C = Some (word_of_int (T + sint (CommandCooldown (cfg a)) - now))"
proof -
  from assms(3) have lt: "now - T < sint (CommandCooldown (cfg a))" by simp
  with assms(2) have c: "0 \<le> sint (CommandCooldown (cfg a))" by simp
  from waitTime_positive [OF c assms(2)] lt
  have p: "0 <s CommandCooldown (cfg a) - time_Since now T" by simp
  note g = cache_Get_window [OF assms(1,3)] and w = waitTime_value(1) [OF assms(2) lt]
  show ?thesis
    unfolding w [symmetric] by (simp add: onCooldown_def Let_def g p)
qed

lemma handleUpdate_window:
  assumes "items (lastUsage a) (Sprint C) = Some (window_item a T)"
    and "T \<le> now" and "now < T + sint (CommandCooldown (cfg a))"
    and "handleUpdate f1 a now u = Inr (a', cs)"
  shows "items (lastUsage a') (Sprint C) = Some (window_item a' T) \<and> cfg a' = cfg a"
proof -
  from assms(4) obtain C' where C': "Message_Chat_ID u = Inr C'"
    by (cases "Message_Chat_ID u") (simp_all add: handleUpdate_def)
  show ?thesis
  proof (cases "C' = C")
    case True
    from onCooldown_window [OF assms(1,2,3)] C' True
    have "handleUpdate f1 a now u =
        Inr (a, [General_MessageResponse C
          (''Command on cooldown for '' @
            f1 (word_of_int (T + sint (CommandCooldown (cfg a)) - now)) @ '' sec'')])"
      by (simp add: handleUpdate_denied)
    with assms(1,4) show ?thesis by simp
  next
    case False
    then have k: "Sprint C \<noteq> Sprint C'" by (simp add: Sprint_eq_iff)
    from assms(4) C' have "a' = a \<or>
        a' = a\<lparr>lastUsage := cache_Set (lastUsage a) (Sprint C') now DefaultExpiration now\<rparr>"
      by (auto simp add: handleUpdate_def Let_def split: option.splits if_splits)
    with assms(1) k show ?thesis
      by (auto simp add: cache_Set_other window_item_def)
  qed
qed

lemma sweep_window:
  assumes "items (lastUsage a) k = Some (window_item a T)"
    and "now < T + sint (CommandCooldown (cfg a))"
  shows "items (cache_DeleteExpired (lastUsage a) now) k = Some (window_item a T)"
  using assms by (simp add: cache_DeleteExpired_def Expired_def window_item_def)

lemma sorted_times_Cons:
  assumes "sorted (T # now # ts @ [t])"
  shows "T \<le> now" and "now \<le> t" and "sorted (T # ts @ [t])"
  using assms by auto

lemma loop_window:
  assumes "items (lastUsage a) (Sprint C) = Some (window_item a T)"
    and "loop f1 a mid = (Blocked, a', acts)"
    and "sorted (T # event_times mid @ [t])"
    and "t < T + sint (CommandCooldown (cfg a))"
  shows "items (lastUsage a') (Sprint C) = Some (window_item a' T) \<and> cfg a' = cfg a"
  using assms
proof (induction mid arbitrary: a acts)
  case Nil
  then show ?case by simp
next
  case (Cons ev mid)
  show ?case
  proof (cases ev)
    case (Received now u)
    with Cons.prems(3) have s: "sorted (T # now # event_times mid @ [t])" by simp
    note now = sorted_times_Cons(1,2) [OF s] and rest = sorted_times_Cons(3) [OF s]
    show ?thesis
    proof (cases "handleUpdate f1 a now u")
      case (Inl p)
      with Cons.prems(2) Received show ?thesis by simp
    next
      case (Inr r)
      obtain a1 cs where "r = (a1, cs)" by (cases r)
      with Inr have h: "handleUpdate f1 a now u = Inr (a1, cs)" by simp
      obtain acts1 where l: "loop f1 a1 mid = (Blocked, a', acts1)"
        using Cons.prems(2) Received h by (auto split: prod.splits)
      from now Cons.prems(4) have "now < T + sint (CommandCooldown (cfg a))" by simp
      from handleUpdate_window [OF Cons.prems(1) now(1) this h]
      have w: "items (lastUsage a1) (Sprint C) = Some (window_item a1 T)" and c: "cfg a1 = cfg a"
        by simp_all
      from Cons.prems(4) c have "t < T + sint (CommandCooldown (cfg a1))" by simp
      from Cons.IH [OF w l rest this] c show ?thesis by simp
    qed
  next
    case (Swept now)
    with Cons.prems(3) have s: "sorted (T # now # event_times mid @ [t])" by simp
    note now = sorted_times_Cons(1,2) [OF s] and rest = sorted_times_Cons(3) [OF s]
    let ?a1 = "a\<lparr>lastUsage := cache_DeleteExpired (lastUsage a) now\<rparr>"
    from Cons.prems(2) Swept have l: "loop f1 ?a1 mid = (Blocked, a', acts)" by simp
    from now Cons.prems(4) have "now < T + sint (CommandCooldown (cfg a))" by simp
    from sweep_window [OF Cons.prems(1) this]
    have w: "items (lastUsage ?a1) (Sprint C) = Some (window_item ?a1 T)"
      by (simp add: window_item_def)
    from Cons.prems(4) have "t < T + sint (CommandCooldown (cfg ?a1))" by simp
    from Cons.IH [OF w l rest this] show ?thesis by simp
  next
    case Signal
    with Cons.prems(2) show ?thesis by simp
  qed
qed

lemma admitted_window:
  assumes "cache_ok a" and "Message_Chat_ID u = Inr C" and "onCooldown a now C = None"
  shows "\<exists>a' cs. handleUpdate f1 a now u = Inr (a', cs) \<and> cfg a' = cfg a \<and>
           items (lastUsage a') (Sprint C) = Some (window_item a' now)"
proof -
  from assms(2) obtain m ch where m: "Message u = Some m" and ch: "Chat m = Some ch"
    and C: "ID ch = C"
    by (auto simp add: Message_Chat_ID_Inr)
  let ?a' = "a\<lparr>lastUsage := cache_Set (lastUsage a) (Sprint C) now DefaultExpiration now\<rparr>"
  from handleUpdate_admitted [OF m ch, of a now f1] assms(3) C
  have "\<exists>cs. handleUpdate f1 a now u = Inr (?a', cs)" by simp
  moreover have "items (lastUsage ?a') (Sprint C) = Some (window_item ?a' now)"
    using handleUpdate_Set_item [OF assms(1), of "Sprint C" now] by (simp add: window_item_def)
  ultimately show ?thesis by auto
qed

lemma lastServed_window:
  "items (lastUsage a) (Sprint C) = Some (window_item a T) \<Longrightarrow> lastServed a C = Some T"
  by (simp add: lastServed_def window_item_def)

section \<open>The code's gate and the spec's\<close>

lemma agrees_mono: "agrees a g clock \<Longrightarrow> clock \<le> clock' \<Longrightarrow> agrees a g clock'"
  unfolding agrees_def
proof (intro allI)
  fix C
  assume a: "\<forall>C. case g C of
            None \<Rightarrow> items (lastUsage a) (Sprint C) = None
          | Some T \<Rightarrow>
              T \<le> clock \<and>
              (items (lastUsage a) (Sprint C) = Some (window_item a T) \<or>
               items (lastUsage a) (Sprint C) = None \<and>
               0 < sint (CommandCooldown (cfg a)) \<and> T + sint (CommandCooldown (cfg a)) < clock)"
    and c: "clock \<le> clock'"
  from a have "case g C of
            None \<Rightarrow> items (lastUsage a) (Sprint C) = None
          | Some T \<Rightarrow>
              T \<le> clock \<and>
              (items (lastUsage a) (Sprint C) = Some (window_item a T) \<or>
               items (lastUsage a) (Sprint C) = None \<and>
               0 < sint (CommandCooldown (cfg a)) \<and> T + sint (CommandCooldown (cfg a)) < clock)"
    by (rule spec)
  with c show "case g C of
            None \<Rightarrow> items (lastUsage a) (Sprint C) = None
          | Some T \<Rightarrow>
              T \<le> clock' \<and>
              (items (lastUsage a) (Sprint C) = Some (window_item a T) \<or>
               items (lastUsage a) (Sprint C) = None \<and>
               0 < sint (CommandCooldown (cfg a)) \<and> T + sint (CommandCooldown (cfg a)) < clock')"
    by (auto split: option.splits)
qed

lemma agrees_None: "agrees a g clock \<Longrightarrow> g C = None \<Longrightarrow> items (lastUsage a) (Sprint C) = None"
  by (auto simp add: agrees_def split: option.splits dest: spec [of _ C])

lemma agrees_Some:
  "agrees a g clock \<Longrightarrow> g C = Some T \<Longrightarrow>
     T \<le> clock \<and>
     (items (lastUsage a) (Sprint C) = Some (window_item a T) \<or>
      items (lastUsage a) (Sprint C) = None \<and>
      0 < sint (CommandCooldown (cfg a)) \<and> T + sint (CommandCooldown (cfg a)) < clock)"
  by (auto simp add: agrees_def split: option.splits dest: spec [of _ C])

lemma agreesI:
  assumes "\<And>C. g C = None \<Longrightarrow> items (lastUsage a) (Sprint C) = None"
    and "\<And>C T. g C = Some T \<Longrightarrow>
      T \<le> clock \<and>
      (items (lastUsage a) (Sprint C) = Some (window_item a T) \<or>
       items (lastUsage a) (Sprint C) = None \<and>
       0 < sint (CommandCooldown (cfg a)) \<and> T + sint (CommandCooldown (cfg a)) < clock)"
  shows "agrees a g clock"
  unfolding agrees_def using assms by (auto split: option.splits)

lemma spec_Admit_fst:
  "fst (spec_Admit cd g C now) =
     (case g C of
        None \<Rightarrow> Admitted
      | Some T \<Rightarrow> if cd \<le> now - T then Admitted else Denied ((T + cd) - now))"
  by (simp add: spec_Admit_def split: option.splits)

lemma spec_Admit_snd:
  "snd (spec_Admit cd g C now) =
     (if fst (spec_Admit cd g C now) = Admitted then g(C \<mapsto> now) else g)"
  by (simp add: spec_Admit_def split: option.splits)

text \<open>The code's verdict is the spec's.\<close>

lemma gate_refines:
  assumes "agrees a g clock" and "cache_ok a"
    and "0 \<le> sint (CommandCooldown (cfg a))" and "clock \<le> now"
  shows "code_verdict a now C = fst (spec_Admit (sint (CommandCooldown (cfg a))) g C now)"
proof (cases "g C")
  case None
  with agrees_None [OF assms(1) None] show ?thesis
    by (simp add: code_verdict_def onCooldown_def cache_Get_def spec_Admit_fst)
next
  case (Some T)
  from agrees_Some [OF assms(1) Some] assms(4) have T: "T \<le> now"
    and it: "items (lastUsage a) (Sprint C) = Some (window_item a T) \<or>
      items (lastUsage a) (Sprint C) = None \<and>
      0 < sint (CommandCooldown (cfg a)) \<and> T + sint (CommandCooldown (cfg a)) < now"
    by auto
  from it show ?thesis
  proof
    assume "items (lastUsage a) (Sprint C) = None \<and>
      0 < sint (CommandCooldown (cfg a)) \<and> T + sint (CommandCooldown (cfg a)) < now"
    with Some show ?thesis
      by (simp add: code_verdict_def onCooldown_def cache_Get_def spec_Admit_fst)
  next
    assume w: "items (lastUsage a) (Sprint C) = Some (window_item a T)"
    show ?thesis
    proof (cases "Expired (window_item a T) now")
      case True
      then have "sint (CommandCooldown (cfg a)) \<le> now - T"
        by (simp add: Expired_def window_item_def word_sless_alt split: if_splits)
      with Some w True show ?thesis
        by (simp add: code_verdict_def onCooldown_def cache_Get_def spec_Admit_fst)
    next
      case False
      with w have g: "cache_Get (lastUsage a) (Sprint C) now = Some T"
        by (simp add: cache_Get_def window_item_def)
      show ?thesis
      proof (cases "now - T < sint (CommandCooldown (cfg a))")
        case True
        from waitTime_positive [OF assms(3) T] True
        have "0 <s CommandCooldown (cfg a) - time_Since now T" by simp
        with g waitTime_value(2) [OF T True] Some True show ?thesis
          by (simp add: code_verdict_def onCooldown_def Let_def spec_Admit_fst)
      next
        case False
        from waitTime_positive [OF assms(3) T] False
        have "\<not> 0 <s CommandCooldown (cfg a) - time_Since now T" by simp
        with g Some False show ?thesis
          by (simp add: code_verdict_def onCooldown_def Let_def spec_Admit_fst)
      qed
    qed
  qed
qed

lemma code_verdict_Admitted: "code_verdict a now C = Admitted \<longleftrightarrow> onCooldown a now C = None"
  by (simp add: code_verdict_def split: option.splits)

lemma code_verdict_Denied:
  "code_verdict a now C = Denied r \<longleftrightarrow> (\<exists>w. onCooldown a now C = Some w \<and> sint w = r)"
  by (auto simp add: code_verdict_def split: option.splits)

lemma update_agrees:
  assumes "agrees a g clock" and "cache_ok a"
    and "0 \<le> sint (CommandCooldown (cfg a))" and "clock \<le> now"
    and "Message_Chat_ID u = Inr C" and "handleUpdate f1 a now u = Inr (a', cs)"
  shows "agrees a' (snd (spec_Admit (sint (CommandCooldown (cfg a))) g C now)) now"
proof (cases "onCooldown a now C")
  case (Some w)
  then have "code_verdict a now C \<noteq> Admitted" by (simp add: code_verdict_def)
  with gate_refines [OF assms(1-4), of C]
  have g': "snd (spec_Admit (sint (CommandCooldown (cfg a))) g C now) = g"
    by (simp add: spec_Admit_snd)
  from handleUpdate_denied [OF assms(5) Some, of f1] assms(6) have "a' = a" by simp
  with g' agrees_mono [OF assms(1,4)] show ?thesis by simp
next
  case None
  then have "code_verdict a now C = Admitted" by (simp add: code_verdict_def)
  with gate_refines [OF assms(1-4), of C]
  have g': "snd (spec_Admit (sint (CommandCooldown (cfg a))) g C now) = g(C \<mapsto> now)"
    by (simp add: spec_Admit_snd)
  from assms(5) obtain m ch where m: "Message u = Some m" and ch: "Chat m = Some ch"
    and C: "ID ch = C"
    by (auto simp add: Message_Chat_ID_Inr)
  from handleUpdate_admitted [OF m ch, of a now f1] None C assms(6)
  have a': "a' = a\<lparr>lastUsage := cache_Set (lastUsage a) (Sprint C) now DefaultExpiration now\<rparr>"
    by simp
  have w: "window_item a' T = window_item a T" for T
    by (simp add: a' window_item_def)
  have same: "items (lastUsage a') (Sprint C) = Some (window_item a' now)"
    using handleUpdate_Set_item [OF assms(2), of "Sprint C" now] by (simp add: a' window_item_def)
  have other: "items (lastUsage a') (Sprint C') = items (lastUsage a) (Sprint C')" if "C' \<noteq> C" for C'
    using that by (simp add: a' cache_Set_other Sprint_eq_iff)
  have c: "cfg a' = cfg a" by (simp add: a')
  note old = agrees_mono [OF assms(1,4)]
  have "agrees a' (g(C \<mapsto> now)) now"
  proof (rule agreesI)
    fix C'
    assume "(g(C \<mapsto> now)) C' = None"
    then have "C' \<noteq> C" and "g C' = None" by (auto split: if_splits)
    with agrees_None [OF old] other show "items (lastUsage a') (Sprint C') = None" by simp
  next
    fix C' T
    assume s: "(g(C \<mapsto> now)) C' = Some T"
    show "T \<le> now \<and>
      (items (lastUsage a') (Sprint C') = Some (window_item a' T) \<or>
       items (lastUsage a') (Sprint C') = None \<and>
       0 < sint (CommandCooldown (cfg a')) \<and> T + sint (CommandCooldown (cfg a')) < now)"
    proof (cases "C' = C")
      case True
      with s same show ?thesis by simp
    next
      case False
      with s have "g C' = Some T" by simp
      from agrees_Some [OF old this] other [OF False] w c show ?thesis by simp
    qed
  qed
  with g' show ?thesis by simp
qed

lemma sweep_agrees:
  assumes "agrees a g clock" and "cache_ok a" and "clock \<le> now"
  shows "agrees (a\<lparr>lastUsage := cache_DeleteExpired (lastUsage a) now\<rparr>) g now"
proof (rule agreesI)
  fix C
  assume "g C = None"
  from agrees_None [OF assms(1) this]
  show "items (lastUsage (a\<lparr>lastUsage := cache_DeleteExpired (lastUsage a) now\<rparr>)) (Sprint C) = None"
    by (simp add: cache_DeleteExpired_def)
next
  fix C T
  let ?a' = "a\<lparr>lastUsage := cache_DeleteExpired (lastUsage a) now\<rparr>"
  assume "g C = Some T"
  from agrees_Some [OF agrees_mono [OF assms(1,3)] this]
  have T: "T \<le> now"
    and it: "items (lastUsage a) (Sprint C) = Some (window_item a T) \<or>
      items (lastUsage a) (Sprint C) = None \<and>
      0 < sint (CommandCooldown (cfg a)) \<and> T + sint (CommandCooldown (cfg a)) < now"
    by auto
  from it have "items (lastUsage ?a') (Sprint C) = Some (window_item ?a' T) \<or>
      items (lastUsage ?a') (Sprint C) = None \<and>
      0 < sint (CommandCooldown (cfg ?a')) \<and> T + sint (CommandCooldown (cfg ?a')) < now"
    by (auto simp add: cache_DeleteExpired_def Expired_def window_item_def word_sless_alt
        split: if_splits)
  with T show "T \<le> now \<and>
      (items (lastUsage ?a') (Sprint C) = Some (window_item ?a' T) \<or>
       items (lastUsage ?a') (Sprint C) = None \<and>
       0 < sint (CommandCooldown (cfg ?a')) \<and> T + sint (CommandCooldown (cfg ?a')) < now)"
    by simp
qed

lemma loop_Signal:
  "loop f1 a pre = (Blocked, a1, acts1) \<Longrightarrow>
     loop f1 a (pre @ Signal # post) =
       (Returned,
        a1\<lparr>bot := (bot a1)\<lparr>receiving := False\<rparr>, db := (db a1)\<lparr>closed := True\<rparr>\<rparr>,
        acts1 @ [Printed ''Stopping bot...'', StopReceivingUpdates, DB_Close,
                 Printed ''Bot gracefully stopped!''])"
proof (induction pre arbitrary: a acts1)
  case Nil
  then show ?case by simp
next
  case (Cons ev pre)
  show ?case
  proof (cases ev)
    case (Received now u)
    show ?thesis
    proof (cases "handleUpdate f1 a now u")
      case (Inl p)
      with Cons.prems Received show ?thesis by simp
    next
      case (Inr r)
      obtain a' cs where "r = (a', cs)" by (cases r)
      with Inr have h: "handleUpdate f1 a now u = Inr (a', cs)" by simp
      obtain acts' where l: "loop f1 a' pre = (Blocked, a1, acts')"
        and acts1: "acts1 = map Started cs @ acts'"
        using Cons.prems Received h by (auto split: prod.splits)
      from Cons.IH [OF l] Received h acts1 show ?thesis by simp
    qed
  next
    case (Swept now)
    with Cons.prems Cons.IH show ?thesis by simp
  next
    case Signal
    with Cons.prems show ?thesis by simp
  qed
qed

lemma loop_Returned:
  "loop f1 a evs = (Returned, a', acts) \<Longrightarrow>
     closed (db a') \<and> \<not> receiving (bot a') \<and>
     (\<exists>acts0. acts = acts0 @ [Printed ''Stopping bot...'', StopReceivingUpdates, DB_Close,
                               Printed ''Bot gracefully stopped!''])"
proof (induction evs arbitrary: a acts)
  case Nil
  then show ?case by simp
next
  case (Cons ev evs)
  show ?case
  proof (cases ev)
    case (Received now u)
    show ?thesis
    proof (cases "handleUpdate f1 a now u")
      case (Inl p)
      with Cons.prems Received show ?thesis by simp
    next
      case (Inr r)
      obtain a1 cs where "r = (a1, cs)" by (cases r)
      with Inr have h: "handleUpdate f1 a now u = Inr (a1, cs)" by simp
      obtain acts1 where l: "loop f1 a1 evs = (Returned, a', acts1)"
        and acts: "acts = map Started cs @ acts1"
        using Cons.prems Received h by (auto split: prod.splits)
      from Cons.IH [OF l] acts show ?thesis by auto
    qed
  next
    case (Swept now)
    with Cons.prems Cons.IH show ?thesis by simp
  next
    case Signal
    with Cons.prems show ?thesis by auto
  qed
qed

lemma loop_append:
  "loop f1 a pre = (Blocked, a1, acts1) \<Longrightarrow>
     loop f1 a (pre @ evs) =
       (case loop f1 a1 evs of (e, a2, acts2) \<Rightarrow> (e, a2, acts1 @ acts2))"
proof (induction pre arbitrary: a acts1)
  case Nil
  then show ?case by (simp split: prod.splits)
next
  case (Cons ev pre)
  show ?case
  proof (cases ev)
    case (Received now u)
    show ?thesis
    proof (cases "handleUpdate f1 a now u")
      case (Inl p)
      with Cons.prems Received show ?thesis by simp
    next
      case (Inr r)
      obtain a' cs where "r = (a', cs)" by (cases r)
      with Inr have h: "handleUpdate f1 a now u = Inr (a', cs)" by simp
      obtain acts' where l: "loop f1 a' pre = (Blocked, a1, acts')"
        and acts1: "acts1 = map Started cs @ acts'"
        using Cons.prems Received h by (auto split: prod.splits)
      from Cons.IH [OF l] Received h acts1 show ?thesis by (simp split: prod.splits)
    qed
  next
    case (Swept now)
    with Cons.prems Cons.IH show ?thesis by simp
  next
    case Signal
    with Cons.prems show ?thesis by simp
  qed
qed

lemma sorted_clock_Cons:
  assumes "sorted (clock # t # ts @ [now])"
  shows "clock \<le> t" and "sorted (t # ts @ [now])"
  using assms by auto

text \<open>The cache agrees with the spec's gate after every list of events the loop handles.\<close>

lemma loop_agrees:
  assumes "agrees a g clock" and "cache_ok a"
    and "0 \<le> sint (CommandCooldown (cfg a))"
    and "sorted (clock # event_times evs @ [now])"
    and "loop f1 a evs = (Blocked, a', acts)"
  shows "agrees a' (spec_after (sint (CommandCooldown (cfg a))) g evs) now"
  using assms
proof (induction evs arbitrary: a g clock acts)
  case Nil
  then show ?case by (auto intro: agrees_mono)
next
  case (Cons ev evs)
  show ?case
  proof (cases ev)
    case (Received t u)
    with Cons.prems(4) have s: "sorted (clock # t # event_times evs @ [now])" by simp
    note t = sorted_clock_Cons(1) [OF s] and rest = sorted_clock_Cons(2) [OF s]
    show ?thesis
    proof (cases "handleUpdate f1 a t u")
      case (Inl p)
      with Cons.prems(5) Received show ?thesis by simp
    next
      case (Inr r)
      obtain a1 cs where "r = (a1, cs)" by (cases r)
      with Inr have h: "handleUpdate f1 a t u = Inr (a1, cs)" by simp
      obtain acts1 where l: "loop f1 a1 evs = (Blocked, a', acts1)"
        using Cons.prems(5) Received h by (auto split: prod.splits)
      from h obtain C where C: "Message_Chat_ID u = Inr C"
        by (cases "Message_Chat_ID u") (simp_all add: handleUpdate_def)
      note c = handleUpdate_cfg [OF h]
      have ok: "cache_ok a1" using Cons.prems(2) h by (rule handleUpdate_cache_ok)
      from update_agrees [OF Cons.prems(1,2,3) t C h]
      have ag: "agrees a1 (snd (spec_Admit (sint (CommandCooldown (cfg a))) g C t)) t" .
      from Cons.prems(3) c have nn: "0 \<le> sint (CommandCooldown (cfg a1))" by simp
      from Cons.IH [OF ag ok nn rest l] c Received C show ?thesis by simp
    qed
  next
    case (Swept t)
    with Cons.prems(4) have s: "sorted (clock # t # event_times evs @ [now])" by simp
    note t = sorted_clock_Cons(1) [OF s] and rest = sorted_clock_Cons(2) [OF s]
    let ?a1 = "a\<lparr>lastUsage := cache_DeleteExpired (lastUsage a) t\<rparr>"
    from Cons.prems(5) Swept have l: "loop f1 ?a1 evs = (Blocked, a', acts)" by simp
    note ag = sweep_agrees [OF Cons.prems(1,2) t]
    note ok = sweep_cache_ok [OF Cons.prems(2), of t]
    from Cons.prems(3) have nn: "0 \<le> sint (CommandCooldown (cfg ?a1))" by simp
    from Cons.IH [OF ag ok nn rest l] Swept show ?thesis by simp
  next
    case Signal
    with Cons.prems(5) show ?thesis by simp
  qed
qed

lemma sorted_first:
  assumes "sorted (ts @ [now :: int])"
  shows "\<exists>clock. sorted (clock # ts @ [now])"
proof (cases ts)
  case Nil
  then show ?thesis by (intro exI [of _ now]) simp
next
  case (Cons t ts')
  with assms show ?thesis by (intro exI [of _ t]) auto
qed

lemma Run_agrees:
  assumes "New NewBotAPI database_New c = Inr a0"
    and "0 \<le> sint (CommandCooldown c)"
    and "Run f1 a0 evs = (Blocked, a, acts)"
    and "sorted (event_times evs @ [now])"
  shows "agrees a (spec_after (sint (CommandCooldown c)) Map.empty evs) now"
proof -
  let ?a = "a0\<lparr>bot := (bot a0)\<lparr>receiving := True\<rparr>\<rparr>"
  from New_cache_ok [OF assms(1)] have ok0: "cache_ok a0" and c: "cfg a0 = c" by simp_all
  then have ok: "cache_ok ?a" by (simp add: cache_ok_def)
  from assms(1) have "items (lastUsage a0) = Map.empty"
    by (auto simp add: New_def cache_New_def Let_def split: sum.splits)
  then have ag: "agrees ?a Map.empty clock" for clock
    by (simp add: agrees_def)
  from sorted_first [OF assms(4)] obtain clock where s: "sorted (clock # event_times evs @ [now])" ..
  from assms(2) c have nn: "0 \<le> sint (CommandCooldown (cfg ?a))" by simp
  from loop_agrees [OF ag ok nn s assms(3) [unfolded Run_def]] c show ?thesis by simp
qed

section \<open>The rendering of the wait\<close>

lemma round_half_even_near:
  assumes "0 < b"
  shows "2 * \<bar>round_half_even a b * b - a\<bar> \<le> b"
proof -
  define q r where "q = a div b" and "r = a mod b"
  have a: "a = q * b + r" by (simp add: q_def r_def)
  have r: "0 \<le> r" "r < b" using assms by (simp_all add: r_def)
  have "round_half_even a b = q \<and> 2 * r \<le> b \<or> round_half_even a b = q + 1 \<and> b \<le> 2 * r"
    by (auto simp add: round_half_even_def Let_def q_def [symmetric] r_def [symmetric])
  then show ?thesis
  proof
    assume "round_half_even a b = q \<and> 2 * r \<le> b"
    with a r show ?thesis by simp
  next
    assume h: "round_half_even a b = q + 1 \<and> b \<le> 2 * r"
    then have "round_half_even a b * b - a = b - r" by (simp add: a algebra_simps)
    with h r show ?thesis by simp
  qed
qed

lemma round_half_even_nonneg: "0 \<le> a \<Longrightarrow> 0 < b \<Longrightarrow> 0 \<le> round_half_even a b"
  by (auto simp add: round_half_even_def Let_def pos_imp_zdiv_nonneg_iff)

lemma bits_pos: "0 < n \<Longrightarrow> 1 \<le> bits n \<and> n < 2 ^ nat (bits n) \<and> 2 ^ nat (bits n - 1) \<le> n"
proof (induction n rule: bits.induct)
  case (1 n)
  show ?case
  proof (cases "n div 2 \<le> 0")
    case True
    with "1.prems" have n: "n = 1" by simp
    have "bits 1 = 1" by (simp add: bits.simps [of 1] bits.simps [of 0])
    with n show ?thesis by simp
  next
    case False
    then have h: "0 < n div 2" by simp
    from "1.IH" [OF _ h] "1.prems"
    have ih: "1 \<le> bits (n div 2)" "n div 2 < 2 ^ nat (bits (n div 2))"
      "2 ^ nat (bits (n div 2) - 1) \<le> n div 2"
      by simp_all
    from "1.prems" have b: "bits n = 1 + bits (n div 2)" by (simp add: bits.simps [of n])
    from ih(1) have e: "nat (1 + bits (n div 2)) = Suc (nat (bits (n div 2)))"
      "nat (bits (n div 2)) = Suc (nat (bits (n div 2) - 1))"
      by simp_all
    have "n < 2 * 2 ^ nat (bits (n div 2))" using ih(2) by linarith
    moreover have "2 * 2 ^ nat (bits (n div 2) - 1) \<le> n" using ih(3) by linarith
    ultimately show ?thesis using ih(1) b e by simp
  qed
qed

lemma exponent_lower:
  assumes "0 < a" and "0 < b" and "0 \<le> exponent a b"
  shows "b * 2 ^ nat (exponent a b) \<le> a"
proof -
  define l where "l = bits a - bits b"
  show ?thesis
  proof (cases "if 0 \<le> l then b * 2 ^ nat l \<le> a else b \<le> a * 2 ^ nat (- l)")
    case True
    then have e: "exponent a b = l" by (simp add: exponent_def l_def [symmetric])
    with assms(3) True show ?thesis by simp
  next
    case False
    then have e: "exponent a b = l - 1" by (simp add: exponent_def l_def [symmetric])
    with assms(3) have l: "1 \<le> l" by simp
    from bits_pos [OF assms(1)] have a: "2 ^ nat (bits a - 1) \<le> a" by simp
    from bits_pos [OF assms(2)] have b: "b < 2 ^ nat (bits b)" and b1: "1 \<le> bits b" by simp_all
    from l b1 have n: "nat (bits a - 1) = nat (bits b) + nat (l - 1)"
      by (simp add: l_def)
    have "b * 2 ^ nat (l - 1) \<le> 2 ^ nat (bits b) * 2 ^ nat (l - 1)"
      using b by (intro mult_right_mono) simp_all
    also have "\<dots> = 2 ^ nat (bits a - 1)" by (simp add: n power_add)
    finally show ?thesis using a e by simp
  qed
qed

lemma exponent_upper:
  assumes "0 < a" and "0 < b" and "a < b * 2 ^ n"
  shows "exponent a b < int n"
proof (rule ccontr)
  assume "\<not> exponent a b < int n"
  then have n: "int n \<le> exponent a b" by simp
  then have "0 \<le> exponent a b" by simp
  from exponent_lower [OF assms(1,2) this] have l: "b * 2 ^ nat (exponent a b) \<le> a" .
  from n have "n \<le> nat (exponent a b)" by simp
  then have "(2::int) ^ n \<le> 2 ^ nat (exponent a b)" by (intro power_increasing) simp_all
  with assms(2) have "b * 2 ^ n \<le> b * 2 ^ nat (exponent a b)" by (intro mult_left_mono) simp_all
  with l assms(3) show False by simp
qed

text \<open>
  The error of a rounding to float64 is at most half a unit in the last place: where the
  exponent of \<open>a / b\<close> is below \<open>n\<close>, at most \<open>2 ^ n / 2 ^ 54\<close>.
\<close>

lemma float64_of_near:
  assumes "0 \<le> a" and "0 < b" and "a < b * 2 ^ n" and "n \<le> 52"
    and "float64_of a b = (a', b')"
  shows "0 \<le> a' \<and> 0 < b' \<and>
    \<bar>real_of_int a' / real_of_int b' - real_of_int a / real_of_int b\<bar> \<le> 2 ^ n / 2 ^ 54"
proof (cases "a = 0")
  case True
  with assms(5) show ?thesis by (simp add: float64_of_def)
next
  case False
  with assms(1) have a: "0 < a" by simp
  define k where "k = exponent a b - 52"
  from exponent_upper [OF a assms(2,3)] assms(4) have k: "k < 0" "- k \<ge> 53 - int n"
    by (simp_all add: k_def)
  define j where "j = nat (- k)"
  from k have j: "53 \<le> j + n" by (simp add: j_def)
  define m where "m = round_half_even (a * 2 ^ j) b"
  from False k(1) have "float64_of a b = (m, 2 ^ j)"
    by (simp add: float64_of_def Let_def k_def [symmetric] m_def j_def)
  with assms(5) have r: "a' = m" "b' = 2 ^ j" by simp_all
  from round_half_even_near [OF assms(2), of "a * 2 ^ j"]
  have "2 * \<bar>m * b - a * 2 ^ j\<bar> \<le> b" by (simp add: m_def)
  then have "real_of_int (2 * \<bar>m * b - a * 2 ^ j\<bar>) \<le> real_of_int b" by linarith
  then have n: "2 * \<bar>real_of_int m * real_of_int b - real_of_int a * 2 ^ j\<bar> \<le> real_of_int b"
    by simp
  have rb: "0 < real_of_int b" using assms(2) by simp
  have "real_of_int m / 2 ^ j - real_of_int a / real_of_int b =
      (real_of_int m * real_of_int b - real_of_int a * 2 ^ j) / (2 ^ j * real_of_int b)"
    using rb by (simp add: field_simps)
  then have "\<bar>real_of_int m / 2 ^ j - real_of_int a / real_of_int b\<bar> =
      \<bar>real_of_int m * real_of_int b - real_of_int a * 2 ^ j\<bar> / (2 ^ j * real_of_int b)"
    using rb by (simp add: abs_mult)
  also have "\<dots> \<le> (real_of_int b / 2) / (2 ^ j * real_of_int b)"
    using n rb by (intro divide_right_mono) simp_all
  also have "\<dots> = 1 / (2 * 2 ^ j)" using rb by simp
  also have "\<dots> \<le> 2 ^ n / 2 ^ 54"
  proof -
    have "(2::real) ^ 54 \<le> 2 ^ Suc (j + n)" using j by (intro power_increasing) simp_all
    then have "(2::real) ^ 54 \<le> 2 * (2 ^ j * 2 ^ n)" by (simp add: power_add)
    then show ?thesis by (simp add: field_simps)
  qed
  finally have e: "\<bar>real_of_int m / 2 ^ j - real_of_int a / real_of_int b\<bar> \<le> 2 ^ n / 2 ^ 54" .
  have "0 \<le> m" using assms(1,2) by (simp add: m_def round_half_even_nonneg)
  with e r show ?thesis by simp
qed

lemma Seconds_near:
  assumes "0 \<le> d" and "d < 2 ^ 63" and "Seconds d = (sa, sb)"
  shows "0 \<le> sa \<and> 0 < sb \<and>
    \<bar>real_of_int sa / real_of_int sb - real_of_int d / 1000000000\<bar> \<le> 1 / 2 ^ 19"
proof -
  define sec nsec where "sec = d div 1000000000" and "nsec = d mod 1000000000"
  have d: "d = sec * 1000000000 + nsec" by (simp add: sec_def nsec_def)
  have nsec: "0 \<le> nsec" "nsec < 1000000000" by (simp_all add: nsec_def)
  have "d div 1000000000 \<le> (2 ^ 63 - 1) div 1000000000"
    using assms(2) by (intro zdiv_mono1) simp_all
  then have sec: "0 \<le> sec" "sec + 2 \<le> 2 ^ 34"
    using assms(1) by (simp_all add: sec_def pos_imp_zdiv_nonneg_iff)
  obtain qa qb where q: "float64_of nsec 1000000000 = (qa, qb)"
    by (cases "float64_of nsec 1000000000")
  from float64_of_near [of nsec 1000000000 0, OF nsec(1) _ _ _ q] nsec(2)
  have qa: "0 \<le> qa" and qb: "0 < qb"
    and qe: "\<bar>real_of_int qa / real_of_int qb - real_of_int nsec / 1000000000\<bar> \<le> 1 / 2 ^ 54"
    by simp_all
  have rqb: "0 < real_of_int qb" using qb by simp
  define Q N where "Q = real_of_int qa / real_of_int qb" and "N = real_of_int nsec / 1000000000"
  have "N < 1" using nsec(2) by (simp add: N_def)
  moreover from qe have "\<bar>Q - N\<bar> \<le> 1 / 2 ^ 54" by (simp only: Q_def N_def)
  moreover have "(1::real) / 2 ^ 54 \<le> 1" by simp
  ultimately have "Q < 2" by linarith
  then have "real_of_int qa / real_of_int qb < 2" by (simp only: Q_def)
  with rqb have "real_of_int qa < 2 * real_of_int qb" by (simp add: field_simps)
  then have q2: "qa < 2 * qb" by linarith
  from assms(3) q have s: "float64_of (sec * qb + qa) qb = (sa, sb)"
    by (simp add: Seconds_def Let_def sec_def nsec_def)
  have n0: "0 \<le> sec * qb + qa" using sec(1) qa qb by simp
  have "sec * qb + qa < (sec + 2) * qb" using q2 by (simp add: algebra_simps)
  also have "\<dots> \<le> 2 ^ 34 * qb" using sec(2) qb by (intro mult_right_mono) simp_all
  finally have n1: "sec * qb + qa < qb * 2 ^ 34" by (simp add: mult.commute)
  from float64_of_near [of "sec * qb + qa" qb 34, OF n0 qb n1 _ s]
  have sa: "0 \<le> sa" and sb: "0 < sb"
    and se: "\<bar>real_of_int sa / real_of_int sb - real_of_int (sec * qb + qa) / real_of_int qb\<bar>
      \<le> 2 ^ 34 / 2 ^ 54"
    by simp_all
  have y: "real_of_int (sec * qb + qa) / real_of_int qb =
      real_of_int sec + real_of_int qa / real_of_int qb"
    using rqb by (simp add: field_simps)
  have x: "real_of_int d / 1000000000 = real_of_int sec + real_of_int nsec / 1000000000"
    by (simp add: d)
  define S where "S = real_of_int sa / real_of_int sb"
  from se qe have "\<bar>S - (real_of_int sec + Q)\<bar> \<le> 2 ^ 34 / 2 ^ 54"
    and "\<bar>Q - N\<bar> \<le> 1 / 2 ^ 54"
    by (simp_all only: y S_def Q_def N_def)
  then have "\<bar>S - (real_of_int sec + N)\<bar> \<le> 2 ^ 34 / 2 ^ 54 + 1 / 2 ^ 54" by linarith
  also have "\<dots> \<le> (1::real) / 2 ^ 19" by simp
  finally have "\<bar>real_of_int sa / real_of_int sb - real_of_int d / 1000000000\<bar> \<le> 1 / 2 ^ 19"
    by (simp only: S_def N_def x)
  then show ?thesis using sa sb by simp
qed

text \<open>
  The tenths shown are those of the wait, rounded: they differ from the wait by at most
  half a tenth of a second and the error of the two float64 roundings, under two
  microseconds.
\<close>

lemma tenths_near:
  assumes "0 \<le> d" and "d < 2 ^ 63"
  shows "0 \<le> tenths d \<and> \<bar>tenths d * 100000000 - d\<bar> \<le> 50000000 + 2000"
proof -
  obtain sa sb where s: "Seconds d = (sa, sb)" by (cases "Seconds d")
  from Seconds_near [OF assms s] have sa: "0 \<le> sa" and sb: "0 < sb"
    and e: "\<bar>real_of_int sa / real_of_int sb - real_of_int d / 1000000000\<bar> \<le> 1 / 2 ^ 19"
    by simp_all
  define t where "t = round_half_even (10 * sa) sb"
  have t: "tenths d = t" by (simp add: tenths_def s t_def)
  have t0: "0 \<le> t" using sa sb by (simp add: t_def round_half_even_nonneg)
  have rsb: "0 < real_of_int sb" using sb by simp
  from round_half_even_near [OF sb, of "10 * sa"] have "2 * \<bar>t * sb - 10 * sa\<bar> \<le> sb"
    by (simp add: t_def)
  then have "real_of_int (2 * \<bar>t * sb - 10 * sa\<bar>) \<le> real_of_int sb" by linarith
  then have "2 * \<bar>real_of_int t * real_of_int sb - 10 * real_of_int sa\<bar> \<le> real_of_int sb"
    by simp
  then have "\<bar>real_of_int t * real_of_int sb - 10 * real_of_int sa\<bar> / real_of_int sb \<le> 1 / 2"
    using rsb by (simp add: field_simps)
  moreover have "\<bar>real_of_int t * real_of_int sb - 10 * real_of_int sa\<bar> / real_of_int sb =
      \<bar>real_of_int t - 10 * (real_of_int sa / real_of_int sb)\<bar>"
  proof -
    have "real_of_int t - 10 * (real_of_int sa / real_of_int sb) =
        (real_of_int t * real_of_int sb - 10 * real_of_int sa) / real_of_int sb"
      using rsb by (simp add: field_simps)
    then show ?thesis using rsb by simp
  qed
  ultimately have n: "\<bar>real_of_int t - 10 * (real_of_int sa / real_of_int sb)\<bar> \<le> 1 / 2"
    by simp
  define B D where "B = real_of_int sa / real_of_int sb" and "D = real_of_int d / 1000000000"
  from n e have "\<bar>real_of_int t - 10 * B\<bar> \<le> 1 / 2" and "\<bar>B - D\<bar> \<le> 1 / 2 ^ 19"
    by (simp_all only: B_def D_def)
  then have "\<bar>real_of_int t - 10 * D\<bar> \<le> 1 / 2 + 10 * (1 / 2 ^ 19)" by linarith
  then have "\<bar>real_of_int t - 10 * D\<bar> * 100000000 \<le> (1 / 2 + 10 * (1 / 2 ^ 19)) * 100000000"
    by (intro mult_right_mono) simp_all
  moreover have "\<bar>real_of_int t - 10 * D\<bar> * 100000000 = \<bar>real_of_int t * 100000000 - real_of_int d\<bar>"
  proof -
    have "(real_of_int t - 10 * D) * 100000000 = real_of_int t * 100000000 - real_of_int d"
      by (simp add: D_def algebra_simps)
    then have "\<bar>(real_of_int t - 10 * D) * 100000000\<bar> = \<bar>real_of_int t * 100000000 - real_of_int d\<bar>"
      by simp
    then show ?thesis by (simp only: abs_mult abs_numeral)
  qed
  moreover have "(1 / 2 + 10 * (1 / 2 ^ 19)) * 100000000 \<le> (50002000::real)" by simp
  ultimately have "\<bar>real_of_int t * 100000000 - real_of_int d\<bar> \<le> 50002000" by linarith
  then have "real_of_int \<bar>t * 100000000 - d\<bar> \<le> real_of_int 50002000" by simp
  then have "\<bar>t * 100000000 - d\<bar> \<le> 50002000" by (simp only: of_int_le_iff)
  with t t0 show ?thesis by simp
qed

section \<open>The samples, evaluated\<close>

lemma sample_Sprint: "Sprint 7 = ''7''" "Sprint 8 = ''8''" "Sprint 9 = ''9''"
  by code_simp+

lemma sample_New: "New sample_NewBotAPI sample_database_New sample_cfg = Inr sample_app"
  by (simp add: New_def sample_NewBotAPI_def sample_database_New_def sample_cfg_def
      sample_app_def cache_New_def Second_def)

lemma sample_Message_Chat_ID: "Message_Chat_ID (sample_update t b c) = Inr 7"
  by (simp add: Message_Chat_ID_def sample_update_def sample_message_def)

lemma sample_Message_Chat_ID_of: "Message_Chat_ID (sample_update_of C) = Inr C"
  by (simp add: Message_Chat_ID_def sample_update_of_def)

lemma sample_cooldown:
  "CommandCooldown sample_cfg = 5000000000" "sint (CommandCooldown sample_cfg) = 5000000000"
  by (simp_all add: sample_cfg_def Second_def)

lemma sample_first_admitted: "onCooldown sample_app now 7 = None"
  by (simp add: onCooldown_def cache_Get_def sample_app_def)

lemma sample_handleUpdate_first:
  "handleUpdate f1 sample_app 0 (sample_update t b c) =
     Inr (sample_served 0,
          [if \<not> b then General_MessageResponse 7 ''I can only handle listed commands in this chat!''
           else dispatch (sample_message t b c) 7])"
proof -
  have m: "Message (sample_update t b c) = Some (sample_message t b c)"
    by (simp add: sample_update_def)
  have c: "Chat (sample_message t b c) = Some \<lparr>ID = 7\<rparr>"
    by (simp add: sample_message_def)
  have s: "sample_app\<lparr>lastUsage := cache_Set (lastUsage sample_app) (Sprint 7) 0 DefaultExpiration 0\<rparr>
             = sample_served 0"
    by (simp add: sample_served_def sample_Sprint sample_app_def cache_Set_def
        DefaultExpiration_def Second_def word_sless_alt)
  have b: "IsCommand (sample_message t b c) = b"
    by (simp add: sample_message_def)
  show ?thesis
    using handleUpdate_admitted [OF m c, of sample_app 0 f1] sample_first_admitted [of 0]
    by (simp add: s b)
qed

lemma sample_Get:
  "0 \<le> t \<Longrightarrow> now \<le> t + 5000000000 \<Longrightarrow>
     cache_Get (lastUsage (sample_served t)) (Sprint 7) now = Some t"
  by (simp add: sample_served_def sample_Sprint cache_Get_def Expired_def)

lemma sample_served_cooldown: "CommandCooldown (cfg (sample_served t)) = 5000000000"
  by (simp add: sample_served_def sample_app_def sample_cooldown)


lemma sample_running_admitted: "onCooldown sample_running now 7 = None"
  by (simp add: onCooldown_def cache_Get_def sample_running_def sample_app_def)

lemma sample_Seconds_1f:
  "Seconds_1f 3000000000 = ''3.0''" "Seconds_1f 4000000000 = ''4.0''"
  "Seconds_1f 2960000000 = ''3.0''" "Seconds_1f 250000000 = ''0.2''"
  by code_simp+

lemma sample_running_first:
  "handleUpdate f1 sample_running 0 (sample_update t b c) =
     Inr (sample_running_served 0,
          [if \<not> b then General_MessageResponse 7 ''I can only handle listed commands in this chat!''
           else dispatch (sample_message t b c) 7])"
proof -
  have m: "Message (sample_update t b c) = Some (sample_message t b c)"
    by (simp add: sample_update_def)
  have c: "Chat (sample_message t b c) = Some \<lparr>ID = 7\<rparr>"
    by (simp add: sample_message_def)
  have s: "sample_running\<lparr>lastUsage :=
               cache_Set (lastUsage sample_running) (Sprint 7) 0 DefaultExpiration 0\<rparr>
             = sample_running_served 0"
    by (simp add: sample_running_served_def sample_running_def sample_Sprint sample_app_def
        cache_Set_def DefaultExpiration_def Second_def word_sless_alt)
  have b: "IsCommand (sample_message t b c) = b"
    by (simp add: sample_message_def)
  show ?thesis
    using handleUpdate_admitted [OF m c, of sample_running 0 f1] sample_running_admitted [of 0]
    by (simp add: s b)
qed

lemma sample_Run_first:
  "Run f1 sample_app [Received 0 (sample_update ''/start'' True ''start'')] =
     (Blocked, sample_running_served 0, [Started (General_StartResponse 7)])"
proof -
  have "sample_app\<lparr>bot := (bot sample_app)\<lparr>receiving := True\<rparr>\<rparr> = sample_running"
    by (simp add: sample_running_def sample_app_def)
  then show ?thesis
    by (simp add: Run_def sample_running_first dispatch_def sample_message_def)
qed

lemma sample_running_served_lastServed: "lastServed (sample_running_served t) 7 = Some t"
  by (simp add: lastServed_def sample_running_served_def sample_Sprint)

text \<open>
  Line 102 wraps around: with the least cooldown an int64 holds and one nanosecond passed
  since the chat was served, the wait comes out as the greatest duration and the update
  is rejected.
\<close>

lemma least_cooldown_wraps:
  "onCooldown
     (sample_app\<lparr>cfg := sample_cfg\<lparr>CommandCooldown := - 9223372036854775808\<rparr>,
                  lastUsage := \<lparr>defaultExpiration = - 9223372036854775808,
                                 items = [''7'' \<mapsto> \<lparr>Object = 0, Expiration = 0\<rparr>]\<rparr>\<rparr>)
     1 7 = Some 9223372036854775807"
  by (simp add: onCooldown_def cache_Get_def Expired_def sample_Sprint time_Since_def
      minDuration_def maxDuration_def word_sless_alt)

section \<open>The cooldown gate\<close>

lemma sample_other_admitted:
  "\<exists>a2. loop f1 (sample_running_served 0) [Received 1000000000 (sample_update_of 8)] =
          (Blocked, a2, [Started (General_HelpResponse 8)])"
proof -
  have m: "Message (sample_update_of 8) =
      Some \<lparr>Chat = Some \<lparr>ID = 8\<rparr>, Text = ''/help'', IsCommand = True, Command = ''help''\<rparr>"
    by (simp add: sample_update_of_def)
  have o: "onCooldown (sample_running_served 0) 1000000000 8 = None"
    by (simp add: onCooldown_def cache_Get_def sample_running_served_def sample_Sprint)
  from handleUpdate_admitted [OF m, of "\<lparr>ID = 8\<rparr>" "sample_running_served 0" 1000000000 f1] o
  show ?thesis by (simp add: dispatch_def)
qed

lemma agrees_lastServed:
  assumes "agrees a g clock" and "clock \<le> now"
  shows "case lastServed a C of
           None \<Rightarrow> (case g C of
                      None \<Rightarrow> True
                    | Some T \<Rightarrow> 0 < sint (CommandCooldown (cfg a)) \<and>
                                T + sint (CommandCooldown (cfg a)) < now)
         | Some T \<Rightarrow> g C = Some T \<and> T \<le> now"
proof (cases "g C")
  case None
  with agrees_None [OF assms(1) None] show ?thesis by (simp add: lastServed_def)
next
  case (Some T)
  from agrees_Some [OF assms(1) Some] assms(2) Some show ?thesis
    by (auto simp add: lastServed_def window_item_def)
qed

lemma sint_remaining:
  assumes "now \<le> now'" and "now' < now + sint (c :: Duration)"
  shows "sint (word_of_int ((now + sint c) - now') :: Duration) = (now + sint c) - now'"
proof -
  from assms have "now' - now < sint c" by simp
  note v = waitTime_value [OF assms(1) this]
  show ?thesis unfolding v(1) [symmetric] by (rule v(2))
qed

text \<open>
  C1. The cooldown gate contract, for an application constructed with a cooldown that is not
  negative, which has run through the events \<open>evs\<close>, when an update of chat \<open>C\<close> arrives at
  \<open>now\<close>; the clock readings are in order. The verdict of lines 101 to 109 is the verdict
  of the spec's gate, which is keyed by the chat and has seen the same updates of every
  chat: admitted if and only if that gate holds no last-served instant of \<open>C\<close> or at least
  the cooldown has passed since, and denied with the wait \<open>(T + cooldown) - now\<close> otherwise.
  The same in the words of the code's own cache: admitted if and only if the cache holds
  no last-served instant of \<open>C\<close> or at least the cooldown has passed since the one it holds.
  On admission line 111 records \<open>now\<close> as the last-served instant of \<open>C\<close>, and from then
  on, whatever updates of whatever chats and whatever sweeps come in between, every update
  of \<open>C\<close> that arrives at \<open>now' < now + cooldown\<close> is denied with the wait
  \<open>(now + cooldown) - now'\<close>, is answered by the cooldown notice alone, and leaves the
  application as it was: no two updates of one chat are admitted within one window.
  Line 102 is computed in 64 bits: for a negative cooldown the subtraction can wrap, which
  \<open>least_cooldown_wraps\<close> shows, and the contract is stated for the cooldowns that are not
  negative.
\<close>

theorem cooldown_gate_contract:
  assumes "New NewBotAPI database_New c = Inr a0"
    and "0 \<le> sint (CommandCooldown c)"
    and "Run f1 a0 evs = (Blocked, a, acts)"
    and "sorted (event_times evs @ [now])"
    and "Message_Chat_ID u = Inr C"
  shows "code_verdict a now C =
           fst (spec_Admit (sint (CommandCooldown c))
                  (spec_after (sint (CommandCooldown c)) Map.empty evs) C now) \<and>
         (code_verdict a now C = Admitted \<longleftrightarrow>
            (case lastServed a C of
               None \<Rightarrow> True
             | Some T \<Rightarrow> sint (CommandCooldown c) \<le> now - T)) \<and>
         (code_verdict a now C = Admitted \<longrightarrow>
            (\<exists>a1 cs.
               handleUpdate f1 a now u = Inr (a1, cs) \<and>
               Run f1 a0 (evs @ [Received now u]) = (Blocked, a1, acts @ map Started cs) \<and>
               lastServed a1 C = Some now \<and>
               (\<forall>mid a2 acts2 now' u'.
                  loop f1 a1 mid = (Blocked, a2, acts2) \<longrightarrow>
                  sorted (now # event_times mid @ [now']) \<longrightarrow>
                  now' < now + sint (CommandCooldown c) \<longrightarrow>
                  Message_Chat_ID u' = Inr C \<longrightarrow>
                  code_verdict a2 now' C = Denied ((now + sint (CommandCooldown c)) - now') \<and>
                  handleUpdate f1 a2 now' u' =
                    Inr (a2, [General_MessageResponse C
                                (''Command on cooldown for '' @
                                  f1 (word_of_int ((now + sint (CommandCooldown c)) - now')) @
                                  '' sec'')]))))"
proof -
  let ?cd = "sint (CommandCooldown c)"
  let ?g = "spec_after ?cd Map.empty evs"
  from Run_cache_ok [OF assms(1,3)] have ok: "cache_ok a" and cfg: "cfg a = c" by simp_all
  note ag = Run_agrees [OF assms(1,2,3,4)]
  from assms(2) cfg have nn: "0 \<le> sint (CommandCooldown (cfg a))" by simp
  from gate_refines [OF ag ok nn order_refl, of C] cfg
  have A: "code_verdict a now C = fst (spec_Admit ?cd ?g C now)" by simp
  have B: "code_verdict a now C = Admitted \<longleftrightarrow>
      (case lastServed a C of None \<Rightarrow> True | Some T \<Rightarrow> ?cd \<le> now - T)"
  proof (cases "lastServed a C")
    case None
    with agrees_lastServed [OF ag order_refl, of C] cfg
    have "case ?g C of None \<Rightarrow> True | Some T \<Rightarrow> 0 < ?cd \<and> T + ?cd < now"
      by (simp split: option.splits)
    then have "fst (spec_Admit ?cd ?g C now) = Admitted"
      by (simp add: spec_Admit_fst split: option.splits)
    with A None show ?thesis by simp
  next
    case (Some T)
    with agrees_lastServed [OF ag order_refl, of C]
    have "?g C = Some T" by simp
    then have "fst (spec_Admit ?cd ?g C now) = Admitted \<longleftrightarrow> ?cd \<le> now - T"
      by (simp add: spec_Admit_fst)
    with A Some show ?thesis by simp
  qed
  have D: "\<exists>a1 cs.
       handleUpdate f1 a now u = Inr (a1, cs) \<and>
       Run f1 a0 (evs @ [Received now u]) = (Blocked, a1, acts @ map Started cs) \<and>
       lastServed a1 C = Some now \<and>
       (\<forall>mid a2 acts2 now' u'.
          loop f1 a1 mid = (Blocked, a2, acts2) \<longrightarrow>
          sorted (now # event_times mid @ [now']) \<longrightarrow>
          now' < now + ?cd \<longrightarrow>
          Message_Chat_ID u' = Inr C \<longrightarrow>
          code_verdict a2 now' C = Denied ((now + ?cd) - now') \<and>
          handleUpdate f1 a2 now' u' =
            Inr (a2, [General_MessageResponse C
                        (''Command on cooldown for '' @
                          f1 (word_of_int ((now + ?cd) - now')) @ '' sec'')]))"
    if adm: "code_verdict a now C = Admitted"
  proof -
    from adm have none: "onCooldown a now C = None" by (simp add: code_verdict_Admitted)
    from admitted_window [OF ok assms(5) none, of f1]
    obtain a1 cs where h: "handleUpdate f1 a now u = Inr (a1, cs)" and c1: "cfg a1 = cfg a"
      and w: "items (lastUsage a1) (Sprint C) = Some (window_item a1 now)"
      by blast
    from loop_append [OF assms(3) [unfolded Run_def], of "[Received now u]"] h
    have r: "Run f1 a0 (evs @ [Received now u]) = (Blocked, a1, acts @ map Started cs)"
      by (simp add: Run_def)
    have later: "code_verdict a2 now' C = Denied ((now + ?cd) - now') \<and>
        handleUpdate f1 a2 now' u' =
          Inr (a2, [General_MessageResponse C
                      (''Command on cooldown for '' @
                        f1 (word_of_int ((now + ?cd) - now')) @ '' sec'')])"
      if l: "loop f1 a1 mid = (Blocked, a2, acts2)"
        and s: "sorted (now # event_times mid @ [now'])"
        and lt: "now' < now + ?cd"
        and u': "Message_Chat_ID u' = Inr C"
      for mid a2 acts2 now' u'
    proof -
      from s have le: "now \<le> now'" by simp
      from lt c1 cfg have lt1: "now' < now + sint (CommandCooldown (cfg a1))" by simp
      from loop_window [OF w l s lt1] c1 cfg
      have w2: "items (lastUsage a2) (Sprint C) = Some (window_item a2 now)"
        and c2: "cfg a2 = c" by simp_all
      from lt c2 have lt2: "now' < now + sint (CommandCooldown (cfg a2))" by simp
      from onCooldown_window [OF w2 le lt2] c2
      have o: "onCooldown a2 now' C = Some (word_of_int ((now + ?cd) - now'))" by simp
      from o sint_remaining [OF le lt]
      have "code_verdict a2 now' C = Denied ((now + ?cd) - now')"
        unfolding code_verdict_Denied by blast
      with handleUpdate_denied [OF u' o, of f1] show ?thesis by simp
    qed
    from h r lastServed_window [OF w] later show ?thesis by blast
  qed
  from A B D show ?thesis by blast
qed

lemma sample_Run_two:
  "\<exists>a. Run f1 sample_app
          [Received 0 (sample_update ''/start'' True ''start''),
           Received 1000000000 (sample_update_of 8)] =
        (Blocked, a, [Started (General_StartResponse 7), Started (General_HelpResponse 8)])"
proof -
  from sample_other_admitted [of f1]
  obtain a where "loop f1 (sample_running_served 0) [Received 1000000000 (sample_update_of 8)] =
      (Blocked, a, [Started (General_HelpResponse 8)])" ..
  with loop_append [OF sample_Run_first [of f1, unfolded Run_def],
      of "[Received 1000000000 (sample_update_of 8)]"]
  show ?thesis by (simp add: Run_def)
qed

lemma sample_spec_after:
  "spec_after 5000000000 Map.empty
     [Received 0 (sample_update ''/start'' True ''start''),
      Received 1000000000 (sample_update_of 8)] = [7 \<mapsto> 0, 8 \<mapsto> 1000000000]"
  by (simp add: sample_Message_Chat_ID sample_Message_Chat_ID_of spec_Admit_def)

theorem cooldown_gate_contract_witness:
  "New sample_NewBotAPI sample_database_New sample_cfg = Inr sample_app \<and>
   0 \<le> sint (CommandCooldown sample_cfg) \<and>
   sorted (event_times [Received 0 (sample_update ''/start'' True ''start''),
                        Received 1000000000 (sample_update_of 8)] @ [2000000000]) \<and>
   Message_Chat_ID (sample_update ''/help'' True ''help'') = Inr 7 \<and>
   Message_Chat_ID (sample_update_of 8) = Inr 8 \<and>
   Message_Chat_ID (sample_update_of 9) = Inr 9 \<and>
   (\<exists>a acts.
      Run Seconds_1f sample_app
        [Received 0 (sample_update ''/start'' True ''start''),
         Received 1000000000 (sample_update_of 8)] = (Blocked, a, acts) \<and>
      code_verdict a 2000000000 7 = Denied 3000000000 \<and>
      code_verdict a 2000000000 8 = Denied 4000000000 \<and>
      code_verdict a 2000000000 9 = Admitted \<and>
      (\<exists>a1 cs a2.
         handleUpdate Seconds_1f a 2000000000 (sample_update_of 9) = Inr (a1, cs) \<and>
         lastServed a1 9 = Some 2000000000 \<and>
         loop Seconds_1f a1 [Swept 2500000000] = (Blocked, a2, []) \<and>
         code_verdict a2 3000000000 9 = Denied 4000000000 \<and>
         handleUpdate Seconds_1f a2 3000000000 (sample_update_of 9) =
           Inr (a2, [General_MessageResponse 9 ''Command on cooldown for 4.0 sec''])))"
proof -
  let ?evs = "[Received 0 (sample_update ''/start'' True ''start''),
               Received 1000000000 (sample_update_of 8)]"
  have h1: "New sample_NewBotAPI sample_database_New sample_cfg = Inr sample_app"
    by (rule sample_New)
  have h2: "0 \<le> sint (CommandCooldown sample_cfg)"
    by (simp add: sample_cooldown)
  have h4: "sorted (event_times ?evs @ [2000000000])"
    by simp
  have h7: "Message_Chat_ID (sample_update ''/help'' True ''help'') = Inr 7"
    by (rule sample_Message_Chat_ID)
  have h8: "Message_Chat_ID (sample_update_of 8) = Inr 8"
    by (rule sample_Message_Chat_ID_of)
  have h9: "Message_Chat_ID (sample_update_of 9) = Inr 9"
    by (rule sample_Message_Chat_ID_of)
  have cd: "sint (CommandCooldown sample_cfg) = 5000000000"
    by (simp add: sample_cooldown)
  have f: "Seconds_1f (word_of_int ((2000000000 + 5000000000) - 3000000000)) = ''4.0''"
    by (simp add: sample_Seconds_1f)
  from sample_Run_two [of Seconds_1f]
  obtain a where h3: "Run Seconds_1f sample_app ?evs =
      (Blocked, a, [Started (General_StartResponse 7), Started (General_HelpResponse 8)])" ..
  note c7 = cooldown_gate_contract [OF h1 h2 h3 h4 h7, unfolded cd sample_spec_after]
    and c8 = cooldown_gate_contract [OF h1 h2 h3 h4 h8, unfolded cd sample_spec_after]
    and c9 = cooldown_gate_contract [OF h1 h2 h3 h4 h9, unfolded cd sample_spec_after]
  from c7 [THEN conjunct1] have v7: "code_verdict a 2000000000 7 = Denied 3000000000"
    by (simp add: spec_Admit_def)
  from c8 [THEN conjunct1] have v8: "code_verdict a 2000000000 8 = Denied 4000000000"
    by (simp add: spec_Admit_def)
  from c9 [THEN conjunct1] have v9: "code_verdict a 2000000000 9 = Admitted"
    by (simp add: spec_Admit_def)
  from c9 [THEN conjunct2, THEN conjunct2, rule_format, OF v9]
  obtain a1 cs where h: "handleUpdate Seconds_1f a 2000000000 (sample_update_of 9) = Inr (a1, cs)"
    and ls: "lastServed a1 9 = Some 2000000000"
    and later: "\<And>mid a2 acts2 now' u'.
          loop Seconds_1f a1 mid = (Blocked, a2, acts2) \<Longrightarrow>
          sorted (2000000000 # event_times mid @ [now']) \<Longrightarrow>
          now' < 2000000000 + 5000000000 \<Longrightarrow>
          Message_Chat_ID u' = Inr 9 \<Longrightarrow>
          code_verdict a2 now' 9 = Denied ((2000000000 + 5000000000) - now') \<and>
          handleUpdate Seconds_1f a2 now' u' =
            Inr (a2, [General_MessageResponse 9
                        (''Command on cooldown for '' @
                          Seconds_1f (word_of_int ((2000000000 + 5000000000) - now')) @
                          '' sec'')])"
    by blast
  let ?a2 = "a1\<lparr>lastUsage := cache_DeleteExpired (lastUsage a1) 2500000000\<rparr>"
  have l: "loop Seconds_1f a1 [Swept 2500000000] = (Blocked, ?a2, [])"
    by simp
  have s: "sorted (2000000000 # event_times [Swept 2500000000] @ [3000000000 :: int])"
    by simp
  have lt: "(3000000000 :: int) < 2000000000 + 5000000000"
    by simp
  from later [OF l s lt h9, unfolded f]
  have d: "code_verdict ?a2 3000000000 9 = Denied 4000000000 \<and>
      handleUpdate Seconds_1f ?a2 3000000000 (sample_update_of 9) =
        Inr (?a2, [General_MessageResponse 9 ''Command on cooldown for 4.0 sec''])"
    by simp
  from h ls l d
  have E: "\<exists>a1 cs a2.
         handleUpdate Seconds_1f a 2000000000 (sample_update_of 9) = Inr (a1, cs) \<and>
         lastServed a1 9 = Some 2000000000 \<and>
         loop Seconds_1f a1 [Swept 2500000000] = (Blocked, a2, []) \<and>
         code_verdict a2 3000000000 9 = Denied 4000000000 \<and>
         handleUpdate Seconds_1f a2 3000000000 (sample_update_of 9) =
           Inr (a2, [General_MessageResponse 9 ''Command on cooldown for 4.0 sec''])"
    by blast
  from h3 v7 v8 v9 E
  have R: "\<exists>a acts.
      Run Seconds_1f sample_app ?evs = (Blocked, a, acts) \<and>
      code_verdict a 2000000000 7 = Denied 3000000000 \<and>
      code_verdict a 2000000000 8 = Denied 4000000000 \<and>
      code_verdict a 2000000000 9 = Admitted \<and>
      (\<exists>a1 cs a2.
         handleUpdate Seconds_1f a 2000000000 (sample_update_of 9) = Inr (a1, cs) \<and>
         lastServed a1 9 = Some 2000000000 \<and>
         loop Seconds_1f a1 [Swept 2500000000] = (Blocked, a2, []) \<and>
         code_verdict a2 3000000000 9 = Denied 4000000000 \<and>
         handleUpdate Seconds_1f a2 3000000000 (sample_update_of 9) =
           Inr (a2, [General_MessageResponse 9 ''Command on cooldown for 4.0 sec'']))"
    by blast
  from h1 h2 h4 h7 h8 h9 R show ?thesis by (simp only: simp_thms)
qed

text \<open>
  C2. An update of chat \<open>C\<close> that the cooldown check rejects (the cache holds a
  last-served time \<open>T\<close> for \<open>C\<close> and the wait of line 102, the cooldown less the time since
  \<open>T\<close>, is positive) leaves the cache as it was: the last-served time of \<open>C\<close> after the
  update is the one before it, and a lookup still finds \<open>T\<close>.
\<close>

theorem denied_keeps_lastServed:
  assumes "Message_Chat_ID u = Inr C"
    and "cache_Get (lastUsage a) (Sprint C) now = Some T"
    and "0 <s CommandCooldown (cfg a) - time_Since now T"
  shows "\<exists>a' cs. handleUpdate f1 a now u = Inr (a', cs) \<and> lastUsage a' = lastUsage a \<and>
           lastServed a' C = lastServed a C \<and>
           cache_Get (lastUsage a') (Sprint C) now = Some T"
proof -
  have "onCooldown a now C = Some (CommandCooldown (cfg a) - time_Since now T)"
    using assms(2,3) by (simp add: onCooldown_Some)
  with assms(1) have "handleUpdate f1 a now u =
      Inr (a, [General_MessageResponse C
        (''Command on cooldown for '' @
          f1 (CommandCooldown (cfg a) - time_Since now T) @ '' sec'')])"
    by (rule handleUpdate_denied)
  with assms(2) show ?thesis by simp
qed

theorem denied_keeps_lastServed_witness:
  "Message_Chat_ID (sample_update ''/start'' True ''start'') = Inr 7 \<and>
   cache_Get (lastUsage (sample_served 0)) (Sprint 7) 2000000000 = Some 0 \<and>
   CommandCooldown (cfg (sample_served 0)) - time_Since 2000000000 0 = 3000000000 \<and>
   0 <s CommandCooldown (cfg (sample_served 0)) - time_Since 2000000000 0 \<and>
   (\<exists>a' cs. handleUpdate Seconds_1f (sample_served 0) 2000000000
               (sample_update ''/start'' True ''start'') = Inr (a', cs) \<and>
            lastUsage a' = lastUsage (sample_served 0) \<and>
            lastServed a' 7 = lastServed (sample_served 0) 7 \<and>
            cache_Get (lastUsage a') (Sprint 7) 2000000000 = Some 0)"
proof -
  have h1: "Message_Chat_ID (sample_update ''/start'' True ''start'') = Inr 7"
    by (rule sample_Message_Chat_ID)
  have h2: "cache_Get (lastUsage (sample_served 0)) (Sprint 7) 2000000000 = Some 0"
    by (rule sample_Get) simp_all
  have w: "CommandCooldown (cfg (sample_served 0)) - time_Since 2000000000 0 = 3000000000"
    by (simp add: sample_served_cooldown time_Since_def minDuration_def maxDuration_def)
  have h3: "0 <s CommandCooldown (cfg (sample_served 0)) - time_Since 2000000000 0"
    unfolding w by (simp add: word_sless_alt)
  show ?thesis
    using denied_keeps_lastServed [OF h1 h2 h3, of Seconds_1f] h1 h2 h3 w by blast
qed

section \<open>Routing\<close>

text \<open>
  C3, as the code has it. An update of a chat that passes the cooldown check and whose
  message is not a command starts exactly one handler call, \<^verbatim>\<open>MessageResponse\<close> with the
  "commands only" notice, and no other. By then line 111 has recorded the current time as
  the chat's last-served time; that is the only change: every other key of the cache, the
  configuration, the bot and the database handle are what they were.
\<close>

theorem non_command_notice_and_timestamp:
  assumes "Message u = Some m" and "Chat m = Some c" and "\<not> IsCommand m"
    and "onCooldown a now (ID c) = None"
  shows "\<exists>a'. handleUpdate f1 a now u =
                 Inr (a', [General_MessageResponse (ID c)
                             ''I can only handle listed commands in this chat!'']) \<and>
              lastServed a' (ID c) = Some now \<and>
              (\<forall>k. k \<noteq> Sprint (ID c) \<longrightarrow> items (lastUsage a') k = items (lastUsage a) k) \<and>
              cfg a' = cfg a \<and> db a' = db a \<and> bot a' = bot a"
  using handleUpdate_admitted [OF assms(1,2,4), of f1] assms(3)
  by (simp add: lastServed_Set cache_Set_other)

theorem non_command_notice_and_timestamp_witness:
  "Message (sample_update ''hello'' False []) = Some (sample_message ''hello'' False []) \<and>
   Chat (sample_message ''hello'' False []) = Some \<lparr>ID = 7\<rparr> \<and>
   \<not> IsCommand (sample_message ''hello'' False []) \<and>
   onCooldown sample_app 0 (ID \<lparr>ID = 7\<rparr>) = None \<and>
   ''8'' \<noteq> Sprint (ID \<lparr>ID = 7\<rparr>) \<and>
   (\<exists>a'. handleUpdate Seconds_1f sample_app 0 (sample_update ''hello'' False []) =
            Inr (a', [General_MessageResponse 7
                        ''I can only handle listed commands in this chat!'']) \<and>
         lastServed a' 7 = Some 0 \<and>
         items (lastUsage a') ''8'' = items (lastUsage sample_app) ''8'' \<and>
         cfg a' = cfg sample_app \<and> db a' = db sample_app \<and> bot a' = bot sample_app)"
proof -
  have h1: "Message (sample_update ''hello'' False []) = Some (sample_message ''hello'' False [])"
    by (simp add: sample_update_def)
  have h2: "Chat (sample_message ''hello'' False []) = Some \<lparr>ID = 7\<rparr>"
    by (simp add: sample_message_def)
  have h3: "\<not> IsCommand (sample_message ''hello'' False [])"
    by (simp add: sample_message_def)
  have h4: "onCooldown sample_app 0 (ID \<lparr>ID = 7\<rparr>) = None"
    by (simp add: sample_first_admitted)
  have h5: "''8'' \<noteq> Sprint (ID \<lparr>ID = 7\<rparr>)"
    by (simp add: sample_Sprint)
  from non_command_notice_and_timestamp [OF h1 h2 h3 h4, of Seconds_1f]
  obtain a' where
    "handleUpdate Seconds_1f sample_app 0 (sample_update ''hello'' False []) =
       Inr (a', [General_MessageResponse (ID \<lparr>ID = 7\<rparr>)
                   ''I can only handle listed commands in this chat!''])"
    "lastServed a' (ID \<lparr>ID = 7\<rparr>) = Some 0"
    "\<forall>k. k \<noteq> Sprint (ID \<lparr>ID = 7\<rparr>) \<longrightarrow> items (lastUsage a') k = items (lastUsage sample_app) k"
    "cfg a' = cfg sample_app" "db a' = db sample_app" "bot a' = bot sample_app"
    by blast
  with h1 h2 h3 h4 h5 show ?thesis by auto
qed

text \<open>
  The claim as the spec states it ("no state mutation", the last-served state unchanged)
  fails: on the first message "hello" of chat 7, which is no command, the notice is sent
  and the chat's last-served time, absent before, is 0 afterwards.
\<close>

theorem non_command_unchanged_counterexample:
  "map_sum id snd (handleUpdate Seconds_1f sample_app 0 (sample_update ''hello'' False [])) =
     Inr [General_MessageResponse 7 ''I can only handle listed commands in this chat!''] \<and>
   lastServed sample_app 7 = None \<and>
   lastServed (fst (projr (handleUpdate Seconds_1f sample_app 0
                             (sample_update ''hello'' False [])))) 7 = Some 0 \<and>
   lastUsage (fst (projr (handleUpdate Seconds_1f sample_app 0
                             (sample_update ''hello'' False [])))) \<noteq> lastUsage sample_app"
proof -
  have e: "handleUpdate Seconds_1f sample_app 0 (sample_update ''hello'' False []) =
      Inr (sample_served 0,
           [General_MessageResponse 7 ''I can only handle listed commands in this chat!''])"
    by (simp add: sample_handleUpdate_first)
  have n: "lastServed sample_app 7 = None"
    by (simp add: lastServed_def sample_app_def)
  have s: "lastServed (sample_served 0) 7 = Some 0"
    by (simp add: lastServed_def sample_served_def sample_Sprint)
  have "lastUsage (sample_served 0) \<noteq> lastUsage sample_app"
  proof
    assume "lastUsage (sample_served 0) = lastUsage sample_app"
    then have "lastServed (sample_served 0) 7 = lastServed sample_app 7"
      by (simp add: lastServed_def)
    with n s show False by simp
  qed
  with e n s show ?thesis by simp
qed

text \<open>
  C4. An update with no message (\<open>Message = None\<close>) is not dropped silently: line 101
  dereferences \<^verbatim>\<open>update.Message\<close> before the nil check of line 113, so \<^verbatim>\<open>handleUpdate\<close> panics
  with a nil pointer dereference, and the dispatch loop, which calls it directly, crashes
  with it.
\<close>

theorem nil_Message_panics:
  "handleUpdate f1 a now \<lparr>UpdateID = n, Message = None\<rparr> = Inl NilPointerDereference \<and>
   loop f1 a (Received now \<lparr>UpdateID = n, Message = None\<rparr> # evs) =
     (Crashed NilPointerDereference, a, [])"
  by (simp add: handleUpdate_def Message_Chat_ID_def)

lemma Seconds_1f_positive:
  assumes "0 <s w"
  shows "Seconds_1f w =
    digits (nat (tenths (sint w) div 10)) @ ''.'' @ digits (nat (tenths (sint w) mod 10))"
  using assms by (simp add: Seconds_1f_def Let_def word_sless_alt)

text \<open>
  C5. An update of chat \<open>C\<close> that the cooldown check rejects (the cache holds a
  last-served time \<open>T\<close> and the wait \<open>w\<close> of line 102 is positive) starts exactly one
  handler call and changes nothing: \<^verbatim>\<open>MessageResponse\<close> with the cooldown notice for \<open>C\<close>.
  The notice shows the wait in seconds with one decimal: the tenths shown are the wait
  rounded, within half a tenth of a second and the two microseconds that float64 can
  lose. Where the clock has not run backwards and the cooldown is not negative, the wait
  is \<open>(T + cooldown) - now\<close>. The call gives the transport one message, to chat \<open>C\<close>, with
  that text.
\<close>

theorem denied_sends_cooldown_notice:
  assumes "Message_Chat_ID u = Inr C"
    and "cache_Get (lastUsage a) (Sprint C) now = Some T"
    and "w = CommandCooldown (cfg a) - time_Since now T"
    and "0 <s w"
    and "text = ''Command on cooldown for '' @
           digits (nat (tenths (sint w) div 10)) @ ''.'' @
           digits (nat (tenths (sint w) mod 10)) @ '' sec''"
  shows "handleUpdate Seconds_1f a now u = Inr (a, [General_MessageResponse C text]) \<and>
         0 \<le> tenths (sint w) \<and>
         \<bar>tenths (sint w) * 100000000 - sint w\<bar> \<le> 50000000 + 2000 \<and>
         (T \<le> now \<longrightarrow> 0 \<le> sint (CommandCooldown (cfg a)) \<longrightarrow>
            sint w = (T + sint (CommandCooldown (cfg a))) - now) \<and>
         sends (MessageResponse tr C text wd) = sends wd @ [\<lparr>ChatID = C, MsgText = text\<rparr>]"
proof -
  have "onCooldown a now C = Some w"
    using assms(2,3,4) by (simp add: onCooldown_Some)
  with assms(1) have "handleUpdate Seconds_1f a now u =
      Inr (a, [General_MessageResponse C (''Command on cooldown for '' @ Seconds_1f w @ '' sec'')])"
    by (rule handleUpdate_denied)
  then have h: "handleUpdate Seconds_1f a now u = Inr (a, [General_MessageResponse C text])"
    by (simp add: Seconds_1f_positive [OF assms(4)] assms(5))
  from assms(4) have p: "0 \<le> sint w" by (simp add: word_sless_alt)
  from tenths_near [OF p sint_bounds(2) [of w]]
  have t: "0 \<le> tenths (sint w)" "\<bar>tenths (sint w) * 100000000 - sint w\<bar> \<le> 50000000 + 2000"
    by simp_all
  have r: "sint w = (T + sint (CommandCooldown (cfg a))) - now"
    if T: "T \<le> now" and c: "0 \<le> sint (CommandCooldown (cfg a))"
  proof -
    from waitTime_positive [OF c T] assms(3,4)
    have "now - T < sint (CommandCooldown (cfg a))" by simp
    from waitTime_value(2) [OF T this] assms(3) show ?thesis by simp
  qed
  have "sends (MessageResponse tr C x wd) = sends wd @ [\<lparr>ChatID = C, MsgText = x\<rparr>]" for x
    by (simp add: MessageResponse_def bot_Send_def log_Printf_def NewMessage_def
        split: option.splits)
  with h t r show ?thesis by simp
qed

theorem denied_sends_cooldown_notice_witness:
  "Message_Chat_ID (sample_update ''/peepo'' True ''peepo'') = Inr 7 \<and>
   cache_Get (lastUsage (sample_served 0)) (Sprint 7) 2040000000 = Some 0 \<and>
   (2960000000 :: Duration) = CommandCooldown (cfg (sample_served 0)) - time_Since 2040000000 0 \<and>
   0 <s (2960000000 :: Duration) \<and>
   (0 :: int) \<le> 2040000000 \<and> 0 \<le> sint (CommandCooldown (cfg (sample_served 0))) \<and>
   handleUpdate Seconds_1f (sample_served 0) 2040000000 (sample_update ''/peepo'' True ''peepo'') =
     Inr (sample_served 0, [General_MessageResponse 7 ''Command on cooldown for 3.0 sec'']) \<and>
   tenths (sint (2960000000 :: Duration)) = 30 \<and>
   \<bar>tenths (sint (2960000000 :: Duration)) * 100000000 - sint (2960000000 :: Duration)\<bar>
     \<le> 50000000 + 2000 \<and>
   sint (2960000000 :: Duration) = (0 + sint (CommandCooldown (cfg (sample_served 0)))) - 2040000000 \<and>
   sends (MessageResponse (\<lambda>c. None) 7 ''Command on cooldown for 3.0 sec''
            \<lparr>sends = [], logs = []\<rparr>) =
     [\<lparr>ChatID = 7, MsgText = ''Command on cooldown for 3.0 sec''\<rparr>]"
proof -
  have h1: "Message_Chat_ID (sample_update ''/peepo'' True ''peepo'') = Inr 7"
    by (rule sample_Message_Chat_ID)
  have h2: "cache_Get (lastUsage (sample_served 0)) (Sprint 7) 2040000000 = Some 0"
    by (rule sample_Get) simp_all
  have h3: "(2960000000 :: Duration) =
      CommandCooldown (cfg (sample_served 0)) - time_Since 2040000000 0"
    by (simp add: sample_served_cooldown time_Since_def minDuration_def maxDuration_def)
  have h4: "0 <s (2960000000 :: Duration)"
    by (simp add: word_sless_alt)
  have t: "tenths (sint (2960000000 :: Duration)) = 30"
    by code_simp
  have h5: "''Command on cooldown for 3.0 sec'' = ''Command on cooldown for '' @
      digits (nat (tenths (sint (2960000000 :: Duration)) div 10)) @ ''.'' @
      digits (nat (tenths (sint (2960000000 :: Duration)) mod 10)) @ '' sec''"
    unfolding t by code_simp
  have c: "(0 :: int) \<le> 2040000000" "0 \<le> sint (CommandCooldown (cfg (sample_served 0)))"
    by (simp_all add: sample_served_cooldown)
  from denied_sends_cooldown_notice
    [OF h1 h2 h3 h4 h5, of "\<lambda>c. None" "\<lparr>sends = [], logs = []\<rparr>"] c
  have "handleUpdate Seconds_1f (sample_served 0) 2040000000
          (sample_update ''/peepo'' True ''peepo'') =
        Inr (sample_served 0, [General_MessageResponse 7 ''Command on cooldown for 3.0 sec''])"
    and "\<bar>tenths (sint (2960000000 :: Duration)) * 100000000 - sint (2960000000 :: Duration)\<bar>
      \<le> 50000000 + 2000"
    and "sint (2960000000 :: Duration) =
      (0 + sint (CommandCooldown (cfg (sample_served 0)))) - 2040000000"
    and "sends (MessageResponse (\<lambda>c. None) 7 ''Command on cooldown for 3.0 sec''
            \<lparr>sends = [], logs = []\<rparr>) =
      [\<lparr>ChatID = 7, MsgText = ''Command on cooldown for 3.0 sec''\<rparr>]"
    by simp_all
  with h1 h2 h3 h4 c t show ?thesis by (simp only: simp_thms)
qed

text \<open>
  C6. For an update that passes the cooldown check and whose message is a command, the
  router starts exactly one handler call, chosen by the command token compared as a
  string (so case matters): \<^verbatim>\<open>start\<close>, \<^verbatim>\<open>help\<close>, \<^verbatim>\<open>peepo\<close>, \<^verbatim>\<open>sub\<close>, \<^verbatim>\<open>unsub\<close> and \<^verbatim>\<open>sub_info\<close> start
  the start, help, image, subscribe, unsubscribe and subscription-info handlers; every
  other token starts \<^verbatim>\<open>MessageResponse\<close> with "Unknown command".
\<close>

theorem command_routing:
  assumes "Message u = Some m" and "Chat m = Some c" and "IsCommand m"
    and "onCooldown a now (ID c) = None"
  shows "\<exists>a' call. handleUpdate f1 a now u = Inr (a', [call]) \<and>
     (Command m = ''start'' \<longrightarrow> call = General_StartResponse (ID c)) \<and>
     (Command m = ''help'' \<longrightarrow> call = General_HelpResponse (ID c)) \<and>
     (Command m = ''peepo'' \<longrightarrow> call = Image_GetImage m) \<and>
     (Command m = ''sub'' \<longrightarrow> call = Image_CreateSubscription m) \<and>
     (Command m = ''unsub'' \<longrightarrow> call = Image_DeleteSubscription m) \<and>
     (Command m = ''sub_info'' \<longrightarrow> call = Image_GetSubscription m) \<and>
     (Command m \<notin> {''start'', ''help'', ''peepo'', ''sub'', ''unsub'', ''sub_info''} \<longrightarrow>
        call = General_MessageResponse (ID c) ''Unknown command'')"
  using handleUpdate_admitted [OF assms(1,2,4), of f1] assms(3)
  by (simp add: dispatch_def)

theorem command_routing_witness:
  "Message (sample_update ''/start'' True ''start'') = Some (sample_message ''/start'' True ''start'') \<and>
   Chat (sample_message ''/start'' True ''start'') = Some \<lparr>ID = 7\<rparr> \<and>
   IsCommand (sample_message ''/start'' True ''start'') \<and>
   onCooldown sample_app 0 (ID \<lparr>ID = 7\<rparr>) = None \<and>
   ''Start'' \<notin> {''start'', ''help'', ''peepo'', ''sub'', ''unsub'', ''sub_info''} \<and>
   map_sum id snd (handleUpdate Seconds_1f sample_app 0 (sample_update ''/start'' True ''start'')) =
     Inr [General_StartResponse 7] \<and>
   map_sum id snd (handleUpdate Seconds_1f sample_app 0 (sample_update ''/help'' True ''help'')) =
     Inr [General_HelpResponse 7] \<and>
   map_sum id snd (handleUpdate Seconds_1f sample_app 0 (sample_update ''/peepo'' True ''peepo'')) =
     Inr [Image_GetImage (sample_message ''/peepo'' True ''peepo'')] \<and>
   map_sum id snd (handleUpdate Seconds_1f sample_app 0 (sample_update ''/sub'' True ''sub'')) =
     Inr [Image_CreateSubscription (sample_message ''/sub'' True ''sub'')] \<and>
   map_sum id snd (handleUpdate Seconds_1f sample_app 0 (sample_update ''/unsub'' True ''unsub'')) =
     Inr [Image_DeleteSubscription (sample_message ''/unsub'' True ''unsub'')] \<and>
   map_sum id snd (handleUpdate Seconds_1f sample_app 0 (sample_update ''/sub_info'' True ''sub_info'')) =
     Inr [Image_GetSubscription (sample_message ''/sub_info'' True ''sub_info'')] \<and>
   map_sum id snd (handleUpdate Seconds_1f sample_app 0 (sample_update ''/Start'' True ''Start'')) =
     Inr [General_MessageResponse 7 ''Unknown command'']"
proof -
  have h1: "Message (sample_update t True c) = Some (sample_message t True c)" for t c
    by (simp add: sample_update_def)
  have h2: "Chat (sample_message t True c) = Some \<lparr>ID = 7\<rparr>" for t c
    by (simp add: sample_message_def)
  have h3: "IsCommand (sample_message t True c)" for t c
    by (simp add: sample_message_def)
  have h4: "onCooldown sample_app 0 (ID \<lparr>ID = 7\<rparr>) = None"
    by (simp add: sample_first_admitted)
  have h5: "''Start'' \<notin> {''start'', ''help'', ''peepo'', ''sub'', ''unsub'', ''sub_info''}"
    by simp
  have c: "Command (sample_message t True c) = c" for t c
    by (simp add: sample_message_def)
  note r = command_routing [OF h1 h2 h3 h4, where ?f1.0 = Seconds_1f, unfolded c]
  have "map_sum id snd (handleUpdate Seconds_1f sample_app 0 (sample_update ''/start'' True ''start'')) =
     Inr [General_StartResponse 7]"
    using r [of "''/start''" "''start''"] by auto
  moreover
  have "map_sum id snd (handleUpdate Seconds_1f sample_app 0 (sample_update ''/help'' True ''help'')) =
     Inr [General_HelpResponse 7]"
    using r [of "''/help''" "''help''"] by auto
  moreover
  have "map_sum id snd (handleUpdate Seconds_1f sample_app 0 (sample_update ''/peepo'' True ''peepo'')) =
     Inr [Image_GetImage (sample_message ''/peepo'' True ''peepo'')]"
    using r [of "''/peepo''" "''peepo''"] by auto
  moreover
  have "map_sum id snd (handleUpdate Seconds_1f sample_app 0 (sample_update ''/sub'' True ''sub'')) =
     Inr [Image_CreateSubscription (sample_message ''/sub'' True ''sub'')]"
    using r [of "''/sub''" "''sub''"] by auto
  moreover
  have "map_sum id snd (handleUpdate Seconds_1f sample_app 0 (sample_update ''/unsub'' True ''unsub'')) =
     Inr [Image_DeleteSubscription (sample_message ''/unsub'' True ''unsub'')]"
    using r [of "''/unsub''" "''unsub''"] by auto
  moreover
  have "map_sum id snd (handleUpdate Seconds_1f sample_app 0 (sample_update ''/sub_info'' True ''sub_info'')) =
     Inr [Image_GetSubscription (sample_message ''/sub_info'' True ''sub_info'')]"
    using r [of "''/sub_info''" "''sub_info''"] by auto
  moreover
  have "map_sum id snd (handleUpdate Seconds_1f sample_app 0 (sample_update ''/Start'' True ''Start'')) =
     Inr [General_MessageResponse 7 ''Unknown command'']"
    using r [of "''/Start''" "''Start''"] by auto
  ultimately show ?thesis
    using h1 h2 h3 h4 h5 by simp
qed

section \<open>Shutdown, construction and the general handlers\<close>

text \<open>
  C8. When the loop, having handled the events \<open>pre\<close>, takes the shutdown signal, it
  stops receiving updates, then closes the database, and only then returns: these are its
  last actions, in this order, between the two log lines; afterwards the bot receives no
  more and the database is closed, and no event after the signal is handled. And whenever
  \<^verbatim>\<open>Run\<close> returns, it has done so.
\<close>

theorem shutdown_on_signal:
  "(\<forall>a1 acts1. Run f1 a pre = (Blocked, a1, acts1) \<longrightarrow>
      Run f1 a (pre @ Signal # post) =
        (Returned,
         a1\<lparr>bot := (bot a1)\<lparr>receiving := False\<rparr>, db := (db a1)\<lparr>closed := True\<rparr>\<rparr>,
         acts1 @ [Printed ''Stopping bot...'', StopReceivingUpdates, DB_Close,
                  Printed ''Bot gracefully stopped!''])) \<and>
   (\<forall>a' acts. Run f1 a evs = (Returned, a', acts) \<longrightarrow>
      closed (db a') \<and> \<not> receiving (bot a') \<and>
      (\<exists>acts0. acts = acts0 @ [Printed ''Stopping bot...'', StopReceivingUpdates, DB_Close,
                                Printed ''Bot gracefully stopped!'']))"
  unfolding Run_def using loop_Signal loop_Returned by blast

theorem shutdown_on_signal_witness:
  "Run Seconds_1f sample_app [Received 0 (sample_update ''/start'' True ''start'')] =
     (Blocked, sample_running_served 0, [Started (General_StartResponse 7)]) \<and>
   Run Seconds_1f sample_app
     ([Received 0 (sample_update ''/start'' True ''start'')] @
      Signal # [Received 6000000000 (sample_update ''/help'' True ''help'')]) =
     (Returned,
      (sample_running_served 0)\<lparr>bot := \<lparr>Token = ''key'', Debug = False, receiving = False\<rparr>,
                                 db := \<lparr>closed = True\<rparr>\<rparr>,
      [Started (General_StartResponse 7), Printed ''Stopping bot...'', StopReceivingUpdates,
       DB_Close, Printed ''Bot gracefully stopped!'']) \<and>
   closed (db ((sample_running_served 0)\<lparr>bot := \<lparr>Token = ''key'', Debug = False, receiving = False\<rparr>,
                                          db := \<lparr>closed = True\<rparr>\<rparr>)) \<and>
   \<not> receiving (bot ((sample_running_served 0)\<lparr>bot := \<lparr>Token = ''key'', Debug = False, receiving = False\<rparr>,
                                                 db := \<lparr>closed = True\<rparr>\<rparr>))"
proof -
  let ?pre = "[Received 0 (sample_update ''/start'' True ''start'')]"
  let ?post = "[Received 6000000000 (sample_update ''/help'' True ''help'')]"
  let ?final = "(sample_running_served 0)\<lparr>bot := \<lparr>Token = ''key'', Debug = False, receiving = False\<rparr>,
                                           db := \<lparr>closed = True\<rparr>\<rparr>"
  have h: "Run Seconds_1f sample_app ?pre =
      (Blocked, sample_running_served 0, [Started (General_StartResponse 7)])"
    by (rule sample_Run_first)
  have b: "(sample_running_served 0)
        \<lparr>bot := (bot (sample_running_served 0))\<lparr>receiving := False\<rparr>,
         db := (db (sample_running_served 0))\<lparr>closed := True\<rparr>\<rparr> = ?final"
    by (simp add: sample_running_served_def sample_running_def sample_app_def)
  from shutdown_on_signal [of Seconds_1f sample_app ?pre ?post "?pre @ Signal # ?post"] h b
  have r: "Run Seconds_1f sample_app (?pre @ Signal # ?post) =
      (Returned, ?final,
       [Started (General_StartResponse 7), Printed ''Stopping bot...'', StopReceivingUpdates,
        DB_Close, Printed ''Bot gracefully stopped!''])"
    by simp
  with shutdown_on_signal [of Seconds_1f sample_app ?pre ?post "?pre @ Signal # ?post"]
  have "closed (db ?final) \<and> \<not> receiving (bot ?final)"
    by blast
  with h r show ?thesis by simp
qed

text \<open>
  C9. \<^verbatim>\<open>New\<close> ends the process with a fatal log line when the bot cannot be created, and
  when the bot is created but the database cannot be connected; it returns an application
  only when both succeed, and then the application holds the configuration, the bot with
  its debug flag set from the configuration, the database handle and an empty cache whose
  default expiration is the cooldown. The dispatch loop is a method of the application
  that \<^verbatim>\<open>New\<close> returns, so after a fatal end it never starts.
\<close>

theorem New_fatal_unless_both_succeed:
  "(\<forall>err. NewBotAPI (ApiKey c) = Inl err \<longrightarrow>
      New NewBotAPI database_New c = Inl (Fatal (''Error creating bot: '' @ err))) \<and>
   (\<forall>b err. NewBotAPI (ApiKey c) = Inr b \<longrightarrow> database_New c = Inl err \<longrightarrow>
      New NewBotAPI database_New c = Inl (Fatal (''Error connecting to database: '' @ err))) \<and>
   (\<forall>b d. NewBotAPI (ApiKey c) = Inr b \<longrightarrow> database_New c = Inr d \<longrightarrow>
      New NewBotAPI database_New c =
        Inr \<lparr>cfg = c, db = d, bot = b\<lparr>Debug := IsDebug c\<rparr>,
             lastUsage = \<lparr>defaultExpiration =
                            (if CommandCooldown c = 0 then - 1 else CommandCooldown c),
                          items = Map.empty\<rparr>\<rparr>) \<and>
   (\<forall>a. New NewBotAPI database_New c = Inr a \<longrightarrow>
      (\<exists>b d. NewBotAPI (ApiKey c) = Inr b \<and> database_New c = Inr d))"
  by (auto simp add: New_def cache_New_def NoExpiration_def Let_def split: sum.splits)

theorem New_fatal_unless_both_succeed_witness:
  "New (\<lambda>token. Inl ''Unauthorized'') sample_database_New sample_cfg =
     Inl (Fatal ''Error creating bot: Unauthorized'') \<and>
   New sample_NewBotAPI (\<lambda>c. Inl ''connection refused'') sample_cfg =
     Inl (Fatal ''Error connecting to database: connection refused'') \<and>
   sample_NewBotAPI (ApiKey sample_cfg) = Inr \<lparr>Token = ''key'', Debug = False, receiving = False\<rparr> \<and>
   sample_database_New sample_cfg = Inr \<lparr>closed = False\<rparr> \<and>
   New sample_NewBotAPI sample_database_New sample_cfg = Inr sample_app \<and>
   (\<exists>b d. sample_NewBotAPI (ApiKey sample_cfg) = Inr b \<and> sample_database_New sample_cfg = Inr d)"
proof -
  have b: "sample_NewBotAPI (ApiKey sample_cfg) =
      Inr \<lparr>Token = ''key'', Debug = False, receiving = False\<rparr>"
    by (simp add: sample_NewBotAPI_def sample_cfg_def)
  have d: "sample_database_New sample_cfg = Inr \<lparr>closed = False\<rparr>"
    by (simp add: sample_database_New_def)
  have a: "\<lparr>cfg = sample_cfg, db = \<lparr>closed = False\<rparr>,
             bot = \<lparr>Token = ''key'', Debug = False, receiving = False\<rparr>\<lparr>Debug := IsDebug sample_cfg\<rparr>,
             lastUsage = \<lparr>defaultExpiration =
                 (if CommandCooldown sample_cfg = 0 then - 1 else CommandCooldown sample_cfg),
               items = Map.empty\<rparr>\<rparr> = sample_app"
    by (simp add: sample_app_def sample_cfg_def Second_def)
  have 1: "New (\<lambda>token. Inl ''Unauthorized'') sample_database_New sample_cfg =
      Inl (Fatal ''Error creating bot: Unauthorized'')"
    using New_fatal_unless_both_succeed
      [of "\<lambda>token. Inl ''Unauthorized''" sample_cfg sample_database_New]
    by simp
  have 2: "New sample_NewBotAPI (\<lambda>c. Inl ''connection refused'') sample_cfg =
      Inl (Fatal ''Error connecting to database: connection refused'')"
    using New_fatal_unless_both_succeed
      [of sample_NewBotAPI sample_cfg "\<lambda>c. Inl ''connection refused''"] b
    by simp
  have 3: "New sample_NewBotAPI sample_database_New sample_cfg = Inr sample_app"
    using New_fatal_unless_both_succeed [of sample_NewBotAPI sample_cfg sample_database_New] b d a
    by simp
  have 4: "\<exists>b d. sample_NewBotAPI (ApiKey sample_cfg) = Inr b \<and> sample_database_New sample_cfg = Inr d"
    using New_fatal_unless_both_succeed [of sample_NewBotAPI sample_cfg sample_database_New] 3
    by blast
  from 1 2 3 4 b d show ?thesis by simp
qed

text \<open>
  C10. Each general handler gives the transport exactly one message, whatever the
  transport answers: on an error it writes one log line and returns, on success it
  returns; it never sends twice and touches nothing but the transport and the log.
\<close>

theorem general_handlers_log_send_errors:
  "MessageResponse tr chatID message w =
     \<lparr>sends = sends w @ [NewMessage chatID message],
      logs = logs w @ (case tr (NewMessage chatID message) of
                         None \<Rightarrow> []
                       | Some err \<Rightarrow> [''Error sending message: '' @ err])\<rparr> \<and>
   StartResponse tr chatID w =
     \<lparr>sends = sends w @
        [NewMessage chatID ''Welcome to peepobot. Now you can use any available command.''],
      logs = logs w @
        (case tr (NewMessage chatID
                    ''Welcome to peepobot. Now you can use any available command.'') of
           None \<Rightarrow> []
         | Some err \<Rightarrow> [''Error sending message: '' @ err])\<rparr> \<and>
   HelpResponse tr chatID w =
     \<lparr>sends = sends w @ [NewMessage chatID help_text],
      logs = logs w @ (case tr (NewMessage chatID help_text) of
                         None \<Rightarrow> []
                       | Some err \<Rightarrow> [''Error sending message: '' @ err])\<rparr>"
  by (simp add: MessageResponse_def StartResponse_def HelpResponse_def bot_Send_def
      log_Printf_def split: option.splits)

section \<open>The cooldown window\<close>




end
